theory Spec2Isabelle
  imports Complex_Main "HOL-Library.Log_Nat"
begin

section \<open>Data model (shared types)\<close>

text \<open>
  The shared interfaces \<^verbatim>\<open>Poll\<close>, \<^verbatim>\<open>PollOption\<close> and \<^verbatim>\<open>Vote\<close>
  become records. Field names carry a prefix (\<open>p_\<close>, \<open>o_\<close>, \<open>v_\<close>) because the
  three interfaces share the field name \<^verbatim>\<open>id\<close>, which is also a HOL constant
  (the request and response records below are prefixed likewise).
  JavaScript strings are modelled as HOL strings, one character per UTF-16 code unit
  (so the model covers code units 0 to 255); a \<^verbatim>\<open>Date\<close> is a natural number of
  milliseconds; a JavaScript number holding a count (the length of an array, below
  \<open>2 ^ 32\<close>) is a \<open>nat\<close>, and the percentage is a \<open>double\<close>, the model of an
  IEEE 754 binary64 number given next.
\<close>

subsection \<open>JavaScript numbers that are not counts\<close>

text \<open>
  The aggregator divides one count by another and multiplies the quotient by 100. A
  \<open>double\<close> is such a value: a finite number that is not negative, given by the
  rational it is, or \<^verbatim>\<open>Infinity\<close>, or \<^verbatim>\<open>NaN\<close>. Every operation returns the double
  nearest to the exact result, ties to the even significand (\<open>rnd\<close>): a significand of
  53 bits at the exponent of the exact result, which is at least \<open>- 1022\<close> (below
  that the numbers are subnormal and stay at that exponent), and \<^verbatim>\<open>Infinity\<close> from
  \<open>2 ^ 1024\<close> on.
\<close>

datatype double = Fin rat | PosInf | NaN

definition floorlog2 :: "rat \<Rightarrow> int" where
  \<comment> \<open>for \<open>x > 0\<close>, the \<open>e\<close> with \<open>2 powi e \<le> x < 2 powi (e + 1)\<close>\<close>
  "floorlog2 x = (if x \<ge> 1 then bitlen \<lfloor>x\<rfloor> - 1 else - bitlen (\<lceil>1 / x\<rceil> - 1))"

definition roundHalfEven :: "rat \<Rightarrow> int" where
  "roundHalfEven x =
     (let f = \<lfloor>x\<rfloor>; d = x - of_int f
      in if d < 1 / 2 then f else if d > 1 / 2 then f + 1 else if even f then f else f + 1)"

definition rnd :: "rat \<Rightarrow> double" where
  "rnd x =
     (if x = 0 then Fin 0
      else (let e = max (floorlog2 x) (- 1022);
                ulp = 2 powi (e - 52);
                y = of_int (roundHalfEven (x / ulp)) * ulp
            in if y \<ge> 2 powi 1024 then PosInf else Fin y))"

fun fdiv :: "double \<Rightarrow> double \<Rightarrow> double" where
  "fdiv (Fin a) (Fin b) = (if b = 0 then (if a = 0 then NaN else PosInf) else rnd (a / b))"
| "fdiv (Fin a) PosInf = Fin 0"
| "fdiv PosInf (Fin b) = PosInf"
| "fdiv PosInf PosInf = NaN"
| "fdiv NaN y = NaN"
| "fdiv x NaN = NaN"

fun fmul :: "double \<Rightarrow> double \<Rightarrow> double" where
  "fmul (Fin a) (Fin b) = rnd (a * b)"
| "fmul (Fin a) PosInf = (if a = 0 then NaN else PosInf)"
| "fmul PosInf (Fin b) = (if b = 0 then NaN else PosInf)"
| "fmul PosInf PosInf = PosInf"
| "fmul NaN y = NaN"
| "fmul x NaN = NaN"

definition num :: "nat \<Rightarrow> double" where
  \<comment> \<open>a count as a number: every integer below \<open>2 ^ 53\<close> is a double\<close>
  "num n = Fin (of_nat n)"

subsection \<open>Polls, options and votes\<close>

datatype PollStatus = active | ended

record PollOption =
  o_id :: string
  o_text :: string
  o_votes :: nat
  o_percentage :: double

record Poll =
  p_id :: string
  p_title :: string
  p_options :: "PollOption list"
  p_status :: PollStatus
  p_createdAt :: nat
  p_createdBy :: string
  p_totalVotes :: nat

record Vote =
  v_id :: string
  v_pollId :: string
  v_optionId :: string
  v_voterId :: string
  v_timestamp :: nat

section \<open>The in-memory data store (class DataStore)\<close>

text \<open>
  The three private \<^verbatim>\<open>Map\<close>s of the class are partial functions; the vote log of
  a poll is a list in arrival order and the voter set of a poll is a set of voter ids.
  Every method takes the store and returns its result together with the store it
  leaves behind (methods that only read return the result alone).
\<close>

record DataStore =
  polls :: "string \<rightharpoonup> Poll"
  votes :: "string \<rightharpoonup> Vote list"
  pollVoters :: "string \<rightharpoonup> string set"

definition emptyStore :: DataStore where
  "emptyStore = \<lparr>polls = Map.empty, votes = Map.empty, pollVoters = Map.empty\<rparr>"

definition createPoll :: "Poll \<Rightarrow> DataStore \<Rightarrow> Poll \<times> DataStore" where
  "createPoll poll s =
     (poll, s\<lparr>polls := (polls s)(p_id poll \<mapsto> poll),
              votes := (votes s)(p_id poll \<mapsto> []),
              pollVoters := (pollVoters s)(p_id poll \<mapsto> {})\<rparr>)"

definition getPoll :: "DataStore \<Rightarrow> string \<Rightarrow> Poll option" where
  "getPoll s i = polls s i"

text \<open>
  \<^verbatim>\<open>updatePoll(id, updates)\<close> spreads \<^verbatim>\<open>updates\<close> over the stored poll; the
  partial poll is modelled by the function that overwrites the fields it carries.
\<close>

definition updatePoll :: "string \<Rightarrow> (Poll \<Rightarrow> Poll) \<Rightarrow> DataStore \<Rightarrow> Poll option \<times> DataStore" where
  "updatePoll i updates s =
     (case polls s i of
        None \<Rightarrow> (None, s)
      | Some poll \<Rightarrow>
          (let updatedPoll = updates poll
           in (Some updatedPoll, s\<lparr>polls := (polls s)(i \<mapsto> updatedPoll)\<rparr>)))"

definition votersOf :: "DataStore \<Rightarrow> string \<Rightarrow> string set" where
  \<comment> \<open>\<^verbatim>\<open>this.pollVoters.get(pollId) || new Set()\<close>\<close>
  "votersOf s pollId = (case pollVoters s pollId of None \<Rightarrow> {} | Some vs \<Rightarrow> vs)"

definition getVotes :: "DataStore \<Rightarrow> string \<Rightarrow> Vote list" where
  \<comment> \<open>\<^verbatim>\<open>this.votes.get(pollId) || []\<close>\<close>
  "getVotes s pollId = (case votes s pollId of None \<Rightarrow> [] | Some l \<Rightarrow> l)"

definition addVote :: "Vote \<Rightarrow> DataStore \<Rightarrow> bool \<times> DataStore" where
  "addVote vote s =
     (case polls s (v_pollId vote) of
        None \<Rightarrow> (False, s)
      | Some poll \<Rightarrow>
          (let voters = votersOf s (v_pollId vote)
           in if v_voterId vote \<in> voters then (False, s)
              else (True,
                    s\<lparr>votes := (votes s)(v_pollId vote \<mapsto> getVotes s (v_pollId vote) @ [vote]),
                      pollVoters := (pollVoters s)(v_pollId vote \<mapsto> insert (v_voterId vote) voters)\<rparr>)))"

definition hasVoted :: "DataStore \<Rightarrow> string \<Rightarrow> string \<Rightarrow> bool" where
  "hasVoted s pollId voterId = (voterId \<in> votersOf s pollId)"

definition aggregateOption :: "Vote list \<Rightarrow> PollOption \<Rightarrow> PollOption" where
  \<comment> \<open>the arrow function mapped over \<^verbatim>\<open>poll.options\<close>\<close>
  "aggregateOption vs option =
     (let totalVotes = length vs;
          optionVotes = length (filter (\<lambda>v. v_optionId v = o_id option) vs)
      in option\<lparr>o_votes := optionVotes,
                o_percentage := (if totalVotes > 0
                                 then fmul (fdiv (num optionVotes) (num totalVotes)) (Fin 100)
                                 else Fin 0)\<rparr>)"

definition aggregateResults :: "DataStore \<Rightarrow> string \<Rightarrow> PollOption list" where
  "aggregateResults s pollId =
     (case polls s pollId of
        None \<Rightarrow> []
      | Some poll \<Rightarrow> map (aggregateOption (getVotes s pollId)) (p_options poll))"

definition getPollWithResults :: "DataStore \<Rightarrow> string \<Rightarrow> Poll option" where
  "getPollWithResults s pollId =
     (case polls s pollId of
        None \<Rightarrow> None
      | Some poll \<Rightarrow>
          Some (poll\<lparr>p_options := aggregateResults s pollId,
                     p_totalVotes := length (getVotes s pollId)\<rparr>))"

section \<open>Request bodies (parsed JSON)\<close>

text \<open>
  A request body is whatever \<^verbatim>\<open>JSON.parse\<close> can return; \<open>JUndefined\<close> is the value
  of a property that is absent. An object keeps its members in source order and a
  repeated key takes its last value, as \<^verbatim>\<open>JSON.parse\<close> does.
\<close>

datatype jsval =
    JUndefined
  | JNull
  | JBool bool
  | JNum real
  | JStr string
  | JArr "jsval list"
  | JObj "(string \<times> jsval) list"

fun truthy :: "jsval \<Rightarrow> bool" where
  "truthy JUndefined = False"
| "truthy JNull = False"
| "truthy (JBool b) = b"
| "truthy (JNum n) = (n \<noteq> 0)"
| "truthy (JStr t) = (t \<noteq> [])"
| "truthy (JArr xs) = True"
| "truthy (JObj kvs) = True"

fun nullish :: "jsval \<Rightarrow> bool" where
  "nullish JUndefined = True"
| "nullish JNull = True"
| "nullish v = False"

text \<open>
  \<open>getProp v k\<close> is \<^verbatim>\<open>v.k\<close> for the property names the handlers read (\<^verbatim>\<open>title\<close>,
  \<^verbatim>\<open>options\<close>, \<^verbatim>\<open>optionId\<close>, \<^verbatim>\<open>voterId\<close>, \<^verbatim>\<open>createdBy\<close>), none of which a
  boolean, number, string or array has. Reading a property of \<^verbatim>\<open>null\<close> throws a
  TypeError: each caller checks \<open>nullish\<close> or \<open>truthy\<close> before it reads.
\<close>

fun getProp :: "jsval \<Rightarrow> string \<Rightarrow> jsval" where
  "getProp (JObj kvs) k = (case map_of (rev kvs) k of None \<Rightarrow> JUndefined | Some v \<Rightarrow> v)"
| "getProp v k = JUndefined"

section \<open>Validation and sanitization (utils/validation.ts)\<close>

text \<open>
  The error messages are Japanese sentences; the model keeps one constructor per
  message. \<open>OptionNotString i\<close>, \<open>OptionEmpty i\<close> and \<open>OptionTooLong i\<close> carry the
  one-based position the message prints.
\<close>

datatype verr =
    BodyRequired
  | TitleRequired
  | TitleNotString
  | TitleTooLong
  | OptionsRequired
  | OptionsNotArray
  | OptionsTooFew
  | OptionsTooMany
  | OptionNotString nat
  | OptionEmpty nat
  | OptionTooLong nat
  | OptionIdRequired
  | OptionIdNotString
  | VoterIdRequired
  | VoterIdNotString

record ValidationResult =
  isValid :: bool
  errors :: "verr list"

definition isWhitespace :: "char \<Rightarrow> bool" where
  \<comment> \<open>the white space and line terminators of \<^verbatim>\<open>String.prototype.trim\<close> below U+0100\<close>
  "isWhitespace c = ((of_char c :: nat) \<in> {9, 10, 11, 12, 13, 32, 160})"

definition trim :: "string \<Rightarrow> string" where
  "trim t = rev (dropWhile isWhitespace (rev (dropWhile isWhitespace t)))"

fun validateOptionItems :: "nat \<Rightarrow> jsval list \<Rightarrow> verr list" where
  "validateOptionItems i [] = []"
| "validateOptionItems i (opt # rest) =
     (case opt of
        JStr t \<Rightarrow>
          (if length (trim t) = 0 then [OptionEmpty (i + 1)]
           else if length t > 100 then [OptionTooLong (i + 1)]
           else [])
      | _ \<Rightarrow> [OptionNotString (i + 1)])
     @ validateOptionItems (i + 1) rest"

definition validateTitle :: "jsval \<Rightarrow> verr list" where
  "validateTitle title =
     (if \<not> truthy title then [TitleRequired]
      else case title of
             JStr t \<Rightarrow>
               (if length (trim t) = 0 then [TitleRequired]
                else if length t > 200 then [TitleTooLong]
                else [])
           | _ \<Rightarrow> [TitleNotString])"

definition validateOptions :: "jsval \<Rightarrow> verr list" where
  "validateOptions opts =
     (if \<not> truthy opts then [OptionsRequired]
      else case opts of
             JArr os \<Rightarrow>
               (if length os < 2 then [OptionsTooFew]
                else if length os > 10 then [OptionsTooMany]
                else validateOptionItems 0 os)
           | _ \<Rightarrow> [OptionsNotArray])"

definition validatePollCreation :: "jsval \<Rightarrow> ValidationResult" where
  "validatePollCreation data =
     (if \<not> truthy data then \<lparr>isValid = False, errors = [BodyRequired]\<rparr>
      else (let errs = validateTitle (getProp data ''title'')
                       @ validateOptions (getProp data ''options'')
            in \<lparr>isValid = (length errs = 0), errors = errs\<rparr>))"

definition validateVote :: "jsval \<Rightarrow> ValidationResult" where
  "validateVote data =
     (if \<not> truthy data then \<lparr>isValid = False, errors = [BodyRequired]\<rparr>
      else (let errs =
                  (if \<not> truthy (getProp data ''optionId'') then [OptionIdRequired]
                   else case getProp data ''optionId'' of
                          JStr t \<Rightarrow> [] | _ \<Rightarrow> [OptionIdNotString])
                  @ (if \<not> truthy (getProp data ''voterId'') then [VoterIdRequired]
                     else case getProp data ''voterId'' of
                            JStr t \<Rightarrow> [] | _ \<Rightarrow> [VoterIdNotString])
            in \<lparr>isValid = (length errs = 0), errors = errs\<rparr>))"

text \<open>
  \<^verbatim>\<open>input.replace(/<[^>]*>/g, '')\<close>: at a \<^verbatim>\<open><\<close> the pattern matches up to the next
  \<^verbatim>\<open>>\<close> and the match is dropped; with no \<^verbatim>\<open>>\<close> ahead there is no match and the
  character stays.
\<close>

function sanitizeHtml :: "string \<Rightarrow> string" where
  "sanitizeHtml [] = []"
| "sanitizeHtml (c # cs) =
     (if c = CHR ''<''
      then (case dropWhile (\<lambda>d. d \<noteq> CHR ''>'') cs of
              [] \<Rightarrow> c # sanitizeHtml cs
            | d # rest \<Rightarrow> sanitizeHtml rest)
      else c # sanitizeHtml cs)"
  by pat_completeness auto
termination
proof (relation "measure length")
  fix c :: char and cs :: string and d :: char and rest :: string
  assume "dropWhile (\<lambda>d. d \<noteq> CHR ''>'') cs = d # rest"
  then have "Suc (length rest) = length (dropWhile (\<lambda>d. d \<noteq> CHR ''>'') cs)"
    by simp
  also have "\<dots> \<le> length cs"
    by (rule length_dropWhile_le)
  finally show "(rest, c # cs) \<in> measure length"
    by simp
qed simp_all

record CreatePollRequest =
  r_title :: string
  r_options :: "string list"

definition sanitizePollData :: "CreatePollRequest \<Rightarrow> CreatePollRequest" where
  "sanitizePollData data =
     \<lparr>r_title = sanitizeHtml (trim (r_title data)),
      r_options = map (\<lambda>option. sanitizeHtml (trim option)) (r_options data)\<rparr>"

section \<open>Errors (utils/errors.ts)\<close>

text \<open>
  An \<^verbatim>\<open>AppError\<close> is identified by its code; a validation error also carries the
  list of validation errors as its details.
\<close>

datatype AppError =
    VALIDATION_ERROR "verr list"
  | POLL_NOT_FOUND
  | ALREADY_VOTED
  | POLL_ENDED
  | INVALID_OPTION
  | UNAUTHORIZED
  | INTERNAL_ERROR

definition createValidationError :: "verr list \<Rightarrow> AppError" where
  "createValidationError errs = VALIDATION_ERROR errs"

section \<open>Route handlers (routes/polls.ts)\<close>

text \<open>
  A handler takes the store, the path parameter, the request body and what the
  environment supplies (generated identifiers, the clock), and returns the response
  with the store it leaves behind. The body is \<open>None\<close> when \<^verbatim>\<open>c.req.json()\<close>
  rejects (the text is not JSON): the \<^verbatim>\<open>catch\<close> block then answers with
  \<open>INTERNAL_ERROR\<close>, as it does for every exception thrown inside \<^verbatim>\<open>try\<close>.
  \<open>Inl\<close> is an error response, \<open>Inr\<close> the data of a success response.
\<close>

fun asStrings :: "jsval list \<Rightarrow> string list option" where
  "asStrings [] = Some []"
| "asStrings (JStr t # rest) = (case asStrings rest of None \<Rightarrow> None | Some ts \<Rightarrow> Some (t # ts))"
| "asStrings (v # rest) = None"

definition asCreatePollRequest :: "jsval \<Rightarrow> CreatePollRequest option" where
  \<comment> \<open>\<^verbatim>\<open>body as CreatePollRequest\<close>: the typed view of a body that has that shape\<close>
  "asCreatePollRequest body =
     (case (getProp body ''title'', getProp body ''options'') of
        (JStr t, JArr os) \<Rightarrow>
          (case asStrings os of
             None \<Rightarrow> None
           | Some ts \<Rightarrow> Some \<lparr>r_title = t, r_options = ts\<rparr>)
      | _ \<Rightarrow> None)"

text \<open>
  \<^verbatim>\<open>sanitized.options.map(text => ({id: generateOptionId(), text, votes: 0, percentage: 0}))\<close>:
  \<open>gen i\<close> is the identifier the \<open>i\<close>-th call of \<^verbatim>\<open>generateOptionId\<close> returns
  (a random string, so it is an input of the model), and \<open>pollId\<close> is the one
  \<^verbatim>\<open>generatePollId\<close> returns. A body that passed \<open>validatePollCreation\<close> always is a
  \<open>CreatePollRequest\<close> (lemma \<open>validatePollCreation_typed\<close> below); on any other body
  \<^verbatim>\<open>data.title.trim()\<close> would throw, hence \<open>INTERNAL_ERROR\<close> in that branch.
\<close>

fun makeOptions :: "(nat \<Rightarrow> string) \<Rightarrow> nat \<Rightarrow> string list \<Rightarrow> PollOption list" where
  "makeOptions gen i [] = []"
| "makeOptions gen i (t # ts) =
     \<lparr>o_id = gen i, o_text = t, o_votes = 0, o_percentage = Fin 0\<rparr> # makeOptions gen (Suc i) ts"

definition createPollRoute ::
  "DataStore \<Rightarrow> jsval option \<Rightarrow> string \<Rightarrow> (nat \<Rightarrow> string) \<Rightarrow> nat \<Rightarrow> (AppError + Poll) \<times> DataStore" where
  "createPollRoute s body pollId gen now =
     (case body of
        None \<Rightarrow> (Inl INTERNAL_ERROR, s)
      | Some b \<Rightarrow>
          (let validation = validatePollCreation b
           in if \<not> isValid validation then (Inl (createValidationError (errors validation)), s)
              else (case asCreatePollRequest b of
                      None \<Rightarrow> (Inl INTERNAL_ERROR, s)
                    | Some request \<Rightarrow>
                        (let sanitized = sanitizePollData request;
                             poll = \<lparr>p_id = pollId,
                                     p_title = r_title sanitized,
                                     p_options = makeOptions gen 0 (r_options sanitized),
                                     p_status = active,
                                     p_createdAt = now,
                                     p_createdBy = ''anonymous'',
                                     p_totalVotes = 0\<rparr>;
                             (createdPoll, s') = createPoll poll s
                         in (Inr createdPoll, s')))))"

definition getPollRoute :: "DataStore \<Rightarrow> string \<Rightarrow> AppError + Poll" where
  "getPollRoute s pollId =
     (case getPollWithResults s pollId of
        None \<Rightarrow> Inl POLL_NOT_FOUND
      | Some poll \<Rightarrow> Inr poll)"

record VoteRequest =
  vq_optionId :: string
  vq_voterId :: string

definition asVoteRequest :: "jsval \<Rightarrow> VoteRequest option" where
  \<comment> \<open>\<^verbatim>\<open>body as VoteRequest\<close>\<close>
  "asVoteRequest body =
     (case (getProp body ''optionId'', getProp body ''voterId'') of
        (JStr oid, JStr vid) \<Rightarrow> Some \<lparr>vq_optionId = oid, vq_voterId = vid\<rparr>
      | _ \<Rightarrow> None)"

record VoteResponse =
  vr_votedOptionId :: string
  vr_poll :: "Poll option"

text \<open>
  The branch of \<open>voteRoute\<close> for a body that passed \<open>validateVote\<close> and is not a
  \<open>VoteRequest\<close> is never taken (lemma \<open>validateVote_typed\<close> below); the model needs
  it only to be total. \<^verbatim>\<open>updatedPoll!\<close> asserts nothing at run time, so the response
  carries whatever \<open>getPollWithResults\<close> returned.
\<close>

definition voteRoute ::
  "DataStore \<Rightarrow> string \<Rightarrow> jsval option \<Rightarrow> string \<Rightarrow> nat \<Rightarrow> (AppError + VoteResponse) \<times> DataStore" where
  "voteRoute s pollId body voteId now =
     (case body of
        None \<Rightarrow> (Inl INTERNAL_ERROR, s)
      | Some b \<Rightarrow>
          (let validation = validateVote b
           in if \<not> isValid validation then (Inl (createValidationError (errors validation)), s)
              else (case asVoteRequest b of
                      None \<Rightarrow> (Inl INTERNAL_ERROR, s)
                    | Some voteRequest \<Rightarrow>
                        (case getPoll s pollId of
                           None \<Rightarrow> (Inl POLL_NOT_FOUND, s)
                         | Some poll \<Rightarrow>
                             if p_status poll \<noteq> active then (Inl POLL_ENDED, s)
                             else if find (\<lambda>opt. o_id opt = vq_optionId voteRequest) (p_options poll) = None
                             then (Inl INVALID_OPTION, s)
                             else if hasVoted s pollId (vq_voterId voteRequest)
                             then (Inl ALREADY_VOTED, s)
                             else (let vote = \<lparr>v_id = voteId,
                                               v_pollId = pollId,
                                               v_optionId = vq_optionId voteRequest,
                                               v_voterId = vq_voterId voteRequest,
                                               v_timestamp = now\<rparr>;
                                       (success, s') = addVote vote s
                                   in if \<not> success then (Inl ALREADY_VOTED, s')
                                      else (Inr \<lparr>vr_votedOptionId = vq_optionId voteRequest,
                                                 vr_poll = getPollWithResults s' pollId\<rparr>, s'))))))"

record ResultsResponse =
  res_pollId :: string
  res_title :: string
  res_results :: "PollOption list"
  res_totalVotes :: nat
  res_status :: PollStatus
  res_createdAt :: nat

definition resultsRoute :: "DataStore \<Rightarrow> string \<Rightarrow> AppError + ResultsResponse" where
  "resultsRoute s pollId =
     (case getPollWithResults s pollId of
        None \<Rightarrow> Inl POLL_NOT_FOUND
      | Some poll \<Rightarrow>
          Inr \<lparr>res_pollId = p_id poll,
               res_title = p_title poll,
               res_results = p_options poll,
               res_totalVotes = p_totalVotes poll,
               res_status = p_status poll,
               res_createdAt = p_createdAt poll\<rparr>)"

text \<open>
  The end handler reads \<^verbatim>\<open>body.createdBy\<close> after the poll was found; on a
  \<^verbatim>\<open>null\<close> body that read throws and the \<^verbatim>\<open>catch\<close> block answers
  \<open>INTERNAL_ERROR\<close>. \<^verbatim>\<open>poll.createdBy !== body.createdBy\<close> compares a string with
  any value: they are equal only when the value is that same string.
\<close>

definition endRoute :: "DataStore \<Rightarrow> string \<Rightarrow> jsval option \<Rightarrow> (AppError + Poll option) \<times> DataStore" where
  "endRoute s pollId body =
     (case body of
        None \<Rightarrow> (Inl INTERNAL_ERROR, s)
      | Some b \<Rightarrow>
          (case getPoll s pollId of
             None \<Rightarrow> (Inl POLL_NOT_FOUND, s)
           | Some poll \<Rightarrow>
               if nullish b then (Inl INTERNAL_ERROR, s)
               else if truthy (getProp b ''createdBy'') \<and> JStr (p_createdBy poll) \<noteq> getProp b ''createdBy''
               then (Inl UNAUTHORIZED, s)
               else (case updatePoll pollId (\<lambda>p. p\<lparr>p_status := ended\<rparr>) s of
                       (None, s') \<Rightarrow> (Inl INTERNAL_ERROR, s')
                     | (Some endedPoll, s') \<Rightarrow> (Inr (getPollWithResults s' pollId), s'))))"

section \<open>States the handlers can reach\<close>

text \<open>
  The store starts empty and changes only through the three mutating handlers, with
  any path parameter, any body and any generated identifiers.
\<close>

inductive reachable :: "DataStore \<Rightarrow> bool" where
  r_init: "reachable emptyStore"
| r_create: "reachable s \<Longrightarrow> createPollRoute s body pollId gen now = (r, s') \<Longrightarrow> reachable s'"
| r_vote: "reachable s \<Longrightarrow> voteRoute s pollId body voteId now = (r, s') \<Longrightarrow> reachable s'"
| r_end: "reachable s \<Longrightarrow> endRoute s pollId body = (r, s') \<Longrightarrow> reachable s'"

section \<open>The connection registry (class WebSocketManager)\<close>

text \<open>
  \<^verbatim>\<open>connections\<close> maps a poll id to a \<^verbatim>\<open>Set\<close> of connection objects. A
  JavaScript \<^verbatim>\<open>Set\<close> of objects compares by identity and iterates in insertion
  order, so the set is a list without repetition and every connection object carries
  the reference \<open>c_ref\<close> it was allocated at; \<open>nextRef\<close> is the next free reference.
  A socket (\<^verbatim>\<open>ws\<close>) is named by a number, and \<open>clientId\<close>, which the source builds
  from the clock and a random number, is an input. The confirmation that
  \<^verbatim>\<open>addConnection\<close> schedules with \<^verbatim>\<open>setTimeout\<close> goes to the new socket only and
  never touches \<^verbatim>\<open>connections\<close>; the timer is not modelled.
\<close>

record WebSocketConnection =
  c_ref :: nat
  c_ws :: nat
  c_pollId :: string
  c_clientId :: string

record WebSocketManager =
  connections :: "string \<rightharpoonup> WebSocketConnection list"
  nextRef :: nat

definition emptyManager :: WebSocketManager where
  "emptyManager = \<lparr>connections = Map.empty, nextRef = 0\<rparr>"

definition setAdd :: "'a list \<Rightarrow> 'a \<Rightarrow> 'a list" where
  \<comment> \<open>\<^verbatim>\<open>Set.prototype.add\<close>\<close>
  "setAdd xs x = (if x \<in> set xs then xs else xs @ [x])"

definition setDelete :: "'a list \<Rightarrow> 'a \<Rightarrow> 'a list" where
  \<comment> \<open>\<^verbatim>\<open>Set.prototype.delete\<close>\<close>
  "setDelete xs x = removeAll x xs"

definition addConnection :: "string \<Rightarrow> nat \<Rightarrow> string \<Rightarrow> WebSocketManager \<Rightarrow> WebSocketManager" where
  "addConnection pollId ws clientId m =
     (let connection = \<lparr>c_ref = nextRef m, c_ws = ws, c_pollId = pollId, c_clientId = clientId\<rparr>;
          conns = (if connections m pollId = None then (connections m)(pollId \<mapsto> [])
                   else connections m);
          pollConnections = (case conns pollId of None \<Rightarrow> [] | Some pc \<Rightarrow> pc)
      in \<lparr>connections = conns(pollId \<mapsto> setAdd pollConnections connection),
          nextRef = Suc (nextRef m)\<rparr>)"

definition removeConnection :: "string \<Rightarrow> nat \<Rightarrow> WebSocketManager \<Rightarrow> WebSocketManager" where
  "removeConnection pollId ws m =
     (case connections m pollId of
        None \<Rightarrow> m
      | Some pollConnections \<Rightarrow>
          (let pc = (case find (\<lambda>connection. c_ws connection = ws) pollConnections of
                       None \<Rightarrow> pollConnections
                     | Some connection \<Rightarrow> setDelete pollConnections connection)
           in if length pc = 0 then m\<lparr>connections := (connections m)(pollId := None)\<rparr>
              else m\<lparr>connections := (connections m)(pollId \<mapsto> pc)\<rparr>))"

text \<open>
  The loop of \<^verbatim>\<open>broadcastToPoll\<close> visits the connections of the set in insertion
  order. \<open>sendOk connection\<close> says whether \<^verbatim>\<open>connection.ws.send(messageStr)\<close> returns
  (otherwise it throws). The loop state is the set and the list of messages that went
  out, each with the socket it went to. Deleting the connection being visited does not
  disturb the iteration of a JavaScript \<^verbatim>\<open>Set\<close>, so the loop runs over the members
  the set had at the start.
\<close>

fun broadcastLoop ::
  "(WebSocketConnection \<Rightarrow> bool) \<Rightarrow> 'm \<Rightarrow> WebSocketConnection list
     \<Rightarrow> WebSocketConnection list \<times> (nat \<times> 'm) list
     \<Rightarrow> WebSocketConnection list \<times> (nat \<times> 'm) list" where
  "broadcastLoop sendOk messageStr [] st = st"
| "broadcastLoop sendOk messageStr (connection # rest) (pollConnections, sent) =
     (if sendOk connection
      then broadcastLoop sendOk messageStr rest
             (pollConnections, sent @ [(c_ws connection, messageStr)])
      else broadcastLoop sendOk messageStr rest
             (setDelete pollConnections connection, sent))"

definition broadcastToPoll ::
  "(WebSocketConnection \<Rightarrow> bool) \<Rightarrow> string \<Rightarrow> 'm \<Rightarrow> WebSocketManager
     \<Rightarrow> (nat \<times> 'm) list \<times> WebSocketManager" where
  "broadcastToPoll sendOk pollId message m =
     (case connections m pollId of
        None \<Rightarrow> ([], m)
      | Some pollConnections \<Rightarrow>
          (let (pc, sent) = broadcastLoop sendOk message pollConnections (pollConnections, [])
           in (sent, m\<lparr>connections := (connections m)(pollId \<mapsto> pc)\<rparr>)))"

definition getConnectionCount :: "WebSocketManager \<Rightarrow> string \<Rightarrow> nat" where
  "getConnectionCount m pollId = (case connections m pollId of None \<Rightarrow> 0 | Some pc \<Rightarrow> length pc)"

text \<open>The registries that the methods of the class can build from the empty one.\<close>

inductive mreachable :: "WebSocketManager \<Rightarrow> bool" where
  m_init: "mreachable emptyManager"
| m_add: "mreachable m \<Longrightarrow> mreachable (addConnection pollId ws clientId m)"
| m_remove: "mreachable m \<Longrightarrow> mreachable (removeConnection pollId ws m)"
| m_broadcast: "mreachable m \<Longrightarrow> mreachable (snd (broadcastToPoll sendOk pollId (message :: unit) m))"

section \<open>The server process\<close>

text \<open>
  The process holds the store, the registry and the sockets; \<open>wire\<close> is the list of
  messages that were sent, each with its socket. In \<^verbatim>\<open>routes/polls.ts\<close> the import
  of the registry is commented out and both places that would broadcast hold only a
  \<^verbatim>\<open>console.log\<close> under the comment "Temporarily disable WebSocket broadcasting":
  the handlers read and write the store alone.
\<close>

datatype MessageType = msg_join_poll | msg_vote | msg_poll_updated | msg_vote_recorded | msg_poll_ended

record WebSocketMessage =
  m_type :: MessageType
  m_payload :: "Poll option"

record Server =
  store :: DataStore
  wsManager :: WebSocketManager
  wire :: "(nat \<times> WebSocketMessage) list"

definition handleVote ::
  "Server \<Rightarrow> string \<Rightarrow> jsval option \<Rightarrow> string \<Rightarrow> nat \<Rightarrow> (AppError + VoteResponse) \<times> Server" where
  "handleVote srv pollId body voteId now =
     (let (response, s') = voteRoute (store srv) pollId body voteId now
      in (response, srv\<lparr>store := s'\<rparr>))"

definition handleEnd :: "Server \<Rightarrow> string \<Rightarrow> jsval option \<Rightarrow> (AppError + Poll option) \<times> Server" where
  "handleEnd srv pollId body =
     (let (response, s') = endRoute (store srv) pollId body
      in (response, srv\<lparr>store := s'\<rparr>))"

section \<open>Typed requests and a running example\<close>

definition createBody :: "string \<Rightarrow> string list \<Rightarrow> jsval" where
  "createBody title opts = JObj [(''title'', JStr title), (''options'', JArr (map JStr opts))]"

definition voteBody :: "string \<Rightarrow> string \<Rightarrow> jsval" where
  "voteBody oid vid = JObj [(''optionId'', JStr oid), (''voterId'', JStr vid)]"

definition endBody :: "string \<Rightarrow> jsval" where
  "endBody requester = JObj [(''createdBy'', JStr requester)]"

text \<open>
  The scenario of the specification: the poll "Lunch?" with the options Sushi and
  Ramen, whose generated identifiers are \<open>''o''\<close> and \<open>''oo''\<close>; voter \<open>v1\<close> votes
  for Sushi; the creator ends the poll.
\<close>

definition exGen :: "nat \<Rightarrow> string" where
  "exGen i = replicate (Suc i) CHR ''o''"

definition lunchPoll :: Poll where
  "lunchPoll =
     \<lparr>p_id = ''p1'', p_title = ''Lunch?'',
      p_options = [\<lparr>o_id = ''o'', o_text = ''Sushi'', o_votes = 0, o_percentage = Fin 0\<rparr>,
                   \<lparr>o_id = ''oo'', o_text = ''Ramen'', o_votes = 0, o_percentage = Fin 0\<rparr>],
      p_status = active, p_createdAt = 1000, p_createdBy = ''anonymous'', p_totalVotes = 0\<rparr>"

definition vote1 :: Vote where
  "vote1 = \<lparr>v_id = ''vote-1'', v_pollId = ''p1'', v_optionId = ''o'', v_voterId = ''v1'',
            v_timestamp = 2000\<rparr>"

definition store1 :: DataStore where
  "store1 = \<lparr>polls = [''p1'' \<mapsto> lunchPoll], votes = [''p1'' \<mapsto> []], pollVoters = [''p1'' \<mapsto> {}]\<rparr>"

definition store2 :: DataStore where
  "store2 = \<lparr>polls = [''p1'' \<mapsto> lunchPoll], votes = [''p1'' \<mapsto> [vote1]],
             pollVoters = [''p1'' \<mapsto> {''v1''}]\<rparr>"

definition store3 :: DataStore where
  "store3 = \<lparr>polls = [''p1'' \<mapsto> lunchPoll\<lparr>p_status := ended\<rparr>], votes = [''p1'' \<mapsto> [vote1]],
             pollVoters = [''p1'' \<mapsto> {''v1''}]\<rparr>"

text \<open>
  The invariant of the store: every logged vote names an option of its poll, the
  voters of the log are pairwise distinct, and the voter set of a poll holds exactly
  the voters of its log.
\<close>

definition storeInv :: "DataStore \<Rightarrow> bool" where
  "storeInv s =
     ((\<forall>pollId p. polls s pollId = Some p \<longrightarrow>
          (\<forall>v \<in> set (getVotes s pollId). v_optionId v \<in> o_id ` set (p_options p))) \<and>
      (\<forall>pollId. distinct (map v_voterId (getVotes s pollId)) \<and>
          votersOf s pollId = v_voterId ` set (getVotes s pollId)))"

definition appendVote :: "DataStore \<Rightarrow> Vote \<Rightarrow> DataStore" where
  \<comment> \<open>the store \<open>addVote\<close> leaves behind when it accepts the vote\<close>
  "appendVote s v =
     s\<lparr>votes := (votes s)(v_pollId v \<mapsto> getVotes s (v_pollId v) @ [v]),
       pollVoters := (pollVoters s)(v_pollId v \<mapsto> insert (v_voterId v) (votersOf s (v_pollId v)))\<rparr>"

text \<open>
  The invariant of the registry: a connection object in a set was allocated before
  the next free reference.
\<close>

definition wfManager :: "WebSocketManager \<Rightarrow> bool" where
  "wfManager m =
     (\<forall>pollId pc. connections m pollId = Some pc \<longrightarrow> (\<forall>c \<in> set pc. c_ref c < nextRef m))"

text \<open>
  The inputs \<open>validatePollCreation\<close> rejects, for a body whose title is a string and
  whose options are an array of strings.
\<close>

definition rejectedInput :: "string \<Rightarrow> string list \<Rightarrow> bool" where
  "rejectedInput t os =
     (trim t = [] \<or> length t > 200 \<or> length os < 2 \<or> length os > 10 \<or>
      (\<exists>x \<in> set os. trim x = [] \<or> length x > 100))"

text \<open>More of the running example: the aggregated view after the first vote, and a
  registry with three sockets on the poll.\<close>

definition lunchView :: Poll where
  "lunchView =
     \<lparr>p_id = ''p1'', p_title = ''Lunch?'',
      p_options = [\<lparr>o_id = ''o'', o_text = ''Sushi'', o_votes = 1, o_percentage = Fin 100\<rparr>,
                   \<lparr>o_id = ''oo'', o_text = ''Ramen'', o_votes = 0, o_percentage = Fin 0\<rparr>],
      p_status = active, p_createdAt = 1000, p_createdBy = ''anonymous'', p_totalVotes = 1\<rparr>"

text \<open>
  The same poll after 25 voters: seven for Sushi, eighteen for Ramen.
\<close>

definition voteOf :: "string \<Rightarrow> nat \<Rightarrow> Vote" where
  "voteOf oid i =
     \<lparr>v_id = replicate (Suc i) CHR ''i'', v_pollId = ''p1'', v_optionId = oid,
      v_voterId = replicate (Suc i) CHR ''v'', v_timestamp = 2000 + i\<rparr>"

definition store25 :: DataStore where
  "store25 =
     \<lparr>polls = [''p1'' \<mapsto> lunchPoll],
      votes = [''p1'' \<mapsto> map (voteOf ''o'') [0..<7] @ map (voteOf ''oo'') [7..<25]],
      pollVoters = [''p1'' \<mapsto> (\<lambda>i. replicate (Suc i) CHR ''v'') ` {0..<25}]\<rparr>"

definition sushi25 :: PollOption where
  "sushi25 = \<lparr>o_id = ''o'', o_text = ''Sushi'', o_votes = 7, o_percentage = Fin (28 + 1 / 2 ^ 48)\<rparr>"

definition ramen25 :: PollOption where
  "ramen25 = \<lparr>o_id = ''oo'', o_text = ''Ramen'', o_votes = 18, o_percentage = Fin 72\<rparr>"

definition lunchView25 :: Poll where
  "lunchView25 = lunchPoll\<lparr>p_options := [sushi25, ramen25], p_totalVotes := 25\<rparr>"

definition conn :: "nat \<Rightarrow> nat \<Rightarrow> WebSocketConnection" where
  "conn r w = \<lparr>c_ref = r, c_ws = w, c_pollId = ''p1'', c_clientId = ''client''\<rparr>"

definition manager1 :: WebSocketManager where
  "manager1 = addConnection ''p1'' 7 ''client'' emptyManager"

definition manager3 :: WebSocketManager where
  "manager3 =
     addConnection ''p1'' 3 ''client''
       (addConnection ''p1'' 2 ''client'' (addConnection ''p1'' 1 ''client'' emptyManager))"

definition server1 :: Server where
  "server1 = \<lparr>store = store1, wsManager = manager1, wire = []\<rparr>"

definition server2 :: Server where
  "server2 = \<lparr>store = store2, wsManager = manager1, wire = []\<rparr>"

section \<open>The arithmetic of doubles\<close>

text \<open>
  \<open>floorlog2\<close> finds the binary exponent of a positive number, \<open>roundHalfEven\<close> is
  within one half of its argument, and so a finite \<open>rnd x\<close> is within half a unit in
  the last place of \<open>x\<close>: in the normal range the relative error is at most
  \<open>1 / 2 ^ 53\<close>. \<open>rnd_eval\<close> computes \<open>rnd x\<close> from an exponent and a significand
  that are checked by comparisons. The quotient of two counts times 100 is therefore
  within \<open>1 / 2 ^ 51\<close>, relatively, of the exact share (\<open>percentage_of_counts_close\<close>).
\<close>

lemma floorlog2_bounds:
  assumes "0 < x"
  shows "2 powi (floorlog2 x) \<le> x \<and> x < 2 powi (floorlog2 x + 1)"
proof (cases "x \<ge> 1")
  case True
  define n where "n = \<lfloor>x\<rfloor>"
  have n1: "n \<ge> 1" using True by (simp add: n_def)
  then have n0: "n > 0" by simp
  from bitlen_bounds[OF n0] have lo: "2 ^ nat (bitlen n - 1) \<le> n" and hi: "n < 2 ^ nat (bitlen n)"
    by simp_all
  have b1: "bitlen n \<ge> 1"
    using n0 by (simp add: bitlen_alt_def)
  have fl: "floorlog2 x = bitlen n - 1"
    using True by (simp add: floorlog2_def n_def)
  have "(2::rat) powi (bitlen n - 1) = of_int (2 ^ nat (bitlen n - 1))"
    using b1 by (simp add: power_int_def)
  also have "\<dots> \<le> of_int n" using lo by (simp only: of_int_le_iff)
  also have "\<dots> \<le> x" by (simp add: n_def)
  finally have A: "2 powi (floorlog2 x) \<le> x" by (simp add: fl)
  have "x < of_int (n + 1)" unfolding n_def by linarith
  also have "\<dots> \<le> of_int (2 ^ nat (bitlen n))" using hi by (simp only: of_int_le_iff)
  also have "\<dots> = (2::rat) powi (bitlen n)"
    using b1 by (simp add: power_int_def)
  finally have B: "x < 2 powi (floorlog2 x + 1)" by (simp add: fl)
  from A B show ?thesis ..
next
  case False
  then have x1: "x < 1" by simp
  define m where "m = \<lceil>1 / x\<rceil> - 1"
  define k where "k = bitlen m"
  have y1: "1 / x > 1" using assms x1 by simp
  then have "\<lceil>1 / x\<rceil> \<ge> 2" by (simp add: le_ceiling_iff)
  then have m0: "m > 0" by (simp add: m_def)
  from bitlen_bounds[OF m0] have lo: "2 ^ nat (k - 1) \<le> m" and hi: "m < 2 ^ nat k"
    by (simp_all add: k_def)
  have k1: "k \<ge> 1"
    using m0 by (simp add: k_def bitlen_alt_def)
  have fl: "floorlog2 x = - k"
    using False by (simp add: floorlog2_def m_def k_def)
  have my: "of_int m < 1 / x"
    unfolding m_def by (metis ceiling_correct of_int_diff of_int_1)
  have "1 / x \<le> of_int (m + 1)" unfolding m_def by (simp add: le_of_int_ceiling)
  also have "\<dots> \<le> of_int (2 ^ nat k)" using hi by (simp only: of_int_le_iff)
  finally have "1 / x \<le> 2 ^ nat k" by simp
  then have "1 \<le> 2 ^ nat k * x"
    using assms by (simp add: pos_divide_le_eq)
  then have "1 / 2 ^ nat k \<le> x"
    by (simp add: pos_divide_le_eq mult.commute)
  moreover have "(2::rat) powi (- k) = 1 / 2 ^ nat k"
    using k1 by (simp add: power_int_def inverse_eq_divide power_one_over)
  ultimately have A: "2 powi (floorlog2 x) \<le> x" by (simp add: fl)
  have "(2::rat) ^ nat (k - 1) = of_int (2 ^ nat (k - 1))" by simp
  also have "\<dots> \<le> of_int m" using lo by (simp only: of_int_le_iff)
  also note my
  finally have "2 ^ nat (k - 1) < 1 / x" .
  then have "2 ^ nat (k - 1) * x < 1"
    using assms by (simp add: pos_less_divide_eq)
  then have "x < 1 / 2 ^ nat (k - 1)"
    by (simp add: pos_less_divide_eq mult.commute)
  moreover have "(2::rat) powi (- k + 1) = 1 / 2 ^ nat (k - 1)"
  proof (cases "k = 1")
    case True
    then show ?thesis by simp
  next
    case False
    with k1 have "- k + 1 < 0" by simp
    then show ?thesis
      by (simp add: power_int_def inverse_eq_divide power_one_over nat_diff_distrib)
  qed
  ultimately have B: "x < 2 powi (floorlog2 x + 1)" by (simp add: fl)
  from A B show ?thesis ..
qed

lemma roundHalfEven_near: "\<bar>of_int (roundHalfEven x) - x\<bar> \<le> 1 / 2"
proof -
  have "of_int \<lfloor>x\<rfloor> \<le> x" "x < of_int \<lfloor>x\<rfloor> + 1"
    by linarith+
  then show ?thesis
    by (auto simp: roundHalfEven_def Let_def)
qed


lemma rnd_error:
  assumes "0 < x" and "rnd x = Fin y"
  shows "\<bar>y - x\<bar> \<le> 2 powi (max (floorlog2 x) (- 1022) - 53)"
proof -
  define e where "e = max (floorlog2 x) (- 1022)"
  define ulp :: rat where "ulp = 2 powi (e - 52)"
  have ulp0: "ulp > 0" by (simp add: ulp_def)
  have y: "y = of_int (roundHalfEven (x / ulp)) * ulp"
    using assms by (auto simp: rnd_def Let_def e_def ulp_def split: if_splits)
  have "y - x = (of_int (roundHalfEven (x / ulp)) - x / ulp) * ulp"
    using ulp0 by (simp add: y left_diff_distrib)
  then have "\<bar>y - x\<bar> = \<bar>of_int (roundHalfEven (x / ulp)) - x / ulp\<bar> * ulp"
    using ulp0 by (simp add: abs_mult)
  also have "\<dots> \<le> (1 / 2) * ulp"
    using roundHalfEven_near[of "x / ulp"] ulp0 by (intro mult_right_mono) simp_all
  also have "\<dots> = 2 powi (e - 53)"
  proof -
    have "(2::rat) powi ((e - 53) + 1) = 2 powi (e - 53) * 2"
      by (rule power_int_add_1) simp
    moreover have "(e - 53) + 1 = e - 52" by simp
    ultimately have "(2::rat) powi (e - 52) = 2 powi (e - 53) * 2"
      by simp
    then show ?thesis by (simp add: ulp_def)
  qed
  finally show ?thesis by (simp add: e_def)
qed

lemma floorlog2_ge:
  assumes "2 powi k \<le> x"
  shows "k \<le> floorlog2 x"
proof -
  have x0: "0 < x"
  proof -
    have "(0::rat) < 2 powi k" by simp
    with assms show ?thesis by linarith
  qed
  from floorlog2_bounds[OF x0] assms have "(2::rat) powi k < 2 powi (floorlog2 x + 1)"
    by linarith
  moreover have "(2::rat) powi (floorlog2 x + 1) \<le> 2 powi k" if "floorlog2 x + 1 \<le> k"
    using that by (intro power_int_increasing) simp_all
  ultimately have "k < floorlog2 x + 1"
    by fastforce
  then show ?thesis by simp
qed

lemma rnd_normal:
  assumes lo: "2 powi (- 1022) \<le> x" and hi: "x \<le> 1024"
  shows "\<exists>y. rnd x = Fin y \<and> \<bar>y - x\<bar> \<le> x / 2 ^ 53"
proof -
  have x0: "0 < x"
  proof -
    have "(0::rat) < 2 powi (- 1022)" by simp
    with lo show ?thesis by linarith
  qed
  define e where "e = floorlog2 x"
  have e: "max (floorlog2 x) (- 1022) = e"
    using floorlog2_ge[OF lo] by (simp add: e_def)
  define ulp :: rat where "ulp = 2 powi (e - 52)"
  define y where "y = of_int (roundHalfEven (x / ulp)) * ulp"
  have ulp0: "ulp > 0" by (simp add: ulp_def)
  have "y - x = (of_int (roundHalfEven (x / ulp)) - x / ulp) * ulp"
    using ulp0 by (simp add: y_def left_diff_distrib)
  then have "\<bar>y - x\<bar> = \<bar>of_int (roundHalfEven (x / ulp)) - x / ulp\<bar> * ulp"
    using ulp0 by (simp add: abs_mult)
  also have "\<dots> \<le> (1 / 2) * ulp"
    using roundHalfEven_near[of "x / ulp"] ulp0 by (intro mult_right_mono) simp_all
  also have "\<dots> = 2 powi e / 2 ^ 53"
  proof -
    have "(2::rat) powi (e - 52) = 2 powi e / 2 powi 52"
      by (rule power_int_diff) simp
    then show ?thesis by (simp add: ulp_def)
  qed
  also have "\<dots> \<le> x / 2 ^ 53"
    using floorlog2_bounds[OF x0] by (simp add: e_def divide_right_mono)
  finally have err: "\<bar>y - x\<bar> \<le> x / 2 ^ 53" .
  have "y \<le> x + x / 2 ^ 53" using err by linarith
  also have "\<dots> \<le> 2 * x" using x0 by simp
  also have "\<dots> \<le> 2048" using hi by simp
  finally have "y \<le> 2048" .
  moreover have "(2048::rat) < 2 powi 1024" by simp
  ultimately have "\<not> y \<ge> 2 powi 1024" by linarith
  then have "rnd x = Fin y"
    using x0 unfolding rnd_def Let_def e y_def ulp_def by simp
  with err show ?thesis by blast
qed



lemma floorlog2_unique:
  assumes "2 powi e \<le> x" and "x < 2 powi (e + 1)"
  shows "floorlog2 x = e"
proof -
  have x0: "0 < x"
  proof -
    have "(0::rat) < 2 powi e" by simp
    with assms show ?thesis by linarith
  qed
  have "e \<le> floorlog2 x" using assms(1) by (rule floorlog2_ge)
  moreover have "floorlog2 x \<le> e"
  proof (rule ccontr)
    assume "\<not> floorlog2 x \<le> e"
    then have "e + 1 \<le> floorlog2 x" by simp
    then have "(2::rat) powi (e + 1) \<le> 2 powi (floorlog2 x)"
      by (intro power_int_increasing) simp_all
    with floorlog2_bounds[OF x0] assms(2) show False by linarith
  qed
  ultimately show ?thesis by simp
qed

lemma roundHalfEven_eq:
  assumes "of_int r - 1 / 2 < x" and "x < of_int r + 1 / 2"
  shows "roundHalfEven x = r"
proof -
  have f: "of_int \<lfloor>x\<rfloor> \<le> x" "x < of_int \<lfloor>x\<rfloor> + 1"
    by linarith+
  have n: "\<bar>of_int (roundHalfEven x) - x\<bar> \<le> 1 / 2"
    by (rule roundHalfEven_near)
  have "\<bar>(of_int (roundHalfEven x) :: rat) - of_int r\<bar> < 1"
    using n assms by linarith
  then have "\<bar>roundHalfEven x - r\<bar> < 1"
    by (metis of_int_abs of_int_diff of_int_less_1_iff)
  then show ?thesis by simp
qed

lemma rnd_eval:
  assumes "2 powi e \<le> x" and "x < 2 powi (e + 1)" and "- 1022 \<le> e" and "e \<le> 9"
    and "of_int r - 1 / 2 < x / 2 powi (e - 52)" and "x / 2 powi (e - 52) < of_int r + 1 / 2"
  shows "rnd x = Fin (of_int r * 2 powi (e - 52))"
proof -
  have "(2::rat) powi (e + 1) \<le> 2 powi 10"
    using assms(4) by (intro power_int_increasing) simp_all
  with assms(2) have "x \<le> 1024" by simp
  from rnd_normal[OF _ this] obtain y where y: "rnd x = Fin y"
    using assms(1,3) power_int_increasing[of "- 1022" e "2::rat"] by fastforce
  have x0: "x \<noteq> 0"
  proof -
    have "(0::rat) < 2 powi e" by simp
    with assms(1) show ?thesis by linarith
  qed
  have e: "max (floorlog2 x) (- 1022) = e"
    using floorlog2_unique[OF assms(1,2)] assms(3) by simp
  have r: "roundHalfEven (x / 2 powi (e - 52)) = r"
    using assms(5,6) by (rule roundHalfEven_eq)
  from y x0 show ?thesis
    unfolding rnd_def Let_def e r by (simp split: if_splits)
qed

text \<open>The percentages of the running example, computed by the kernel.\<close>

lemma rnd_0: "rnd 0 = Fin 0"
  by (simp add: rnd_def)

lemma rnd_1: "rnd 1 = Fin 1"
  using rnd_eval[of 0 1 "2 ^ 52"] by (simp add: power_int_minus_divide)

lemma rnd_100: "rnd 100 = Fin 100"
  using rnd_eval[of 6 100 "100 * 2 ^ 46"] by (simp add: power_int_minus_divide)

lemma rnd_7_25: "rnd (7 / 25) = Fin (5044031582654956 / 2 ^ 54)"
  using rnd_eval[of "- 2" "7 / 25" 5044031582654956] by (simp add: power_int_minus_divide)

lemma rnd_28: "rnd (5044031582654956 / 2 ^ 54 * 100) = Fin (28 + 1 / 2 ^ 48)"
  using rnd_eval[of 4 "5044031582654956 / 2 ^ 54 * 100" 7881299347898369]
  by (simp add: power_int_minus_divide)

lemma rnd_18_25: "rnd (18 / 25) = Fin (6485183463413514 / 2 ^ 53)"
  using rnd_eval[of "- 1" "18 / 25" 6485183463413514] by (simp add: power_int_minus_divide)

lemma rnd_72: "rnd (6485183463413514 / 2 ^ 53 * 100) = Fin 72"
  using rnd_eval[of 6 "6485183463413514 / 2 ^ 53 * 100" "72 * 2 ^ 46"]
  by (simp add: power_int_minus_divide)

lemma pct_1_of_1: "fmul (fdiv (num (Suc 0)) (num (Suc 0))) (Fin 100) = Fin 100"
  by (simp add: num_def rnd_1 rnd_100)

lemma pct_0_of_1: "fmul (fdiv (num 0) (num (Suc 0))) (Fin 100) = Fin 0"
  by (simp add: num_def rnd_0)

lemma pct_7_of_25: "fmul (fdiv (num 7) (num 25)) (Fin 100) = Fin (28 + 1 / 2 ^ 48)"
  using rnd_28 by (simp add: num_def rnd_7_25)

lemma pct_18_of_25: "fmul (fdiv (num 18) (num 25)) (Fin 100) = Fin 72"
  using rnd_72 by (simp add: num_def rnd_18_25)


lemma tiny_le: "(2::rat) powi (- 1022) \<le> 1 / 2 ^ 33"
proof -
  have "(2::rat) powi (- 1022) \<le> 2 powi (- 33)"
    by (intro power_int_increasing) simp_all
  also have "\<dots> = 1 / 2 ^ 33"
    by (simp add: power_int_minus_divide)
  finally show ?thesis .
qed

lemma percentage_zero_votes:
  assumes "0 < t"
  shows "fmul (fdiv (num 0) (num t)) (Fin 100) = Fin 0"
  using assms by (simp add: num_def rnd_0)

lemma percentage_of_counts_close:
  assumes "v \<le> t" and "0 < t" and "t < 2 ^ 32"
  shows "\<exists>q. fmul (fdiv (num v) (num t)) (Fin 100) = Fin q \<and>
             \<bar>q - 100 * of_nat v / of_nat t\<bar> \<le> (100 * of_nat v / of_nat t) / 2 ^ 51"
proof (cases "v = 0")
  case True
  then show ?thesis
    using percentage_zero_votes[OF assms(2)] by simp
next
  case False
  define x :: rat where "x = of_nat v / of_nat t"
  have t0: "(0::rat) < of_nat t" using assms by simp
  have x_le: "x \<le> 1"
    using assms t0 by (simp add: x_def)
  have tb: "(of_nat t :: rat) \<le> 2 ^ 32"
    using assms(3) by (metis less_imp_le of_nat_le_iff of_nat_numeral of_nat_power)
  have v1: "(1::rat) \<le> of_nat v" using False by simp
  have x_ge: "1 / 2 ^ 32 \<le> x"
    unfolding x_def using v1 tb t0 by (intro frac_le) simp_all
  have x0: "0 < x"
  proof -
    have "(0::rat) < 1 / 2 ^ 32" by simp
    with x_ge show ?thesis by linarith
  qed
  have "(1::rat) / 2 ^ 33 \<le> 1 / 2 ^ 32" by simp
  with tiny_le x_ge have lo1: "2 powi (- 1022) \<le> x" by linarith
  have hi1: "x \<le> 1024" using x_le by simp
  from rnd_normal[OF lo1 hi1] obtain a where a: "rnd x = Fin a" and ea: "\<bar>a - x\<bar> \<le> x / 2 ^ 53"
    by auto
  have half: "x / 2 ^ 53 \<le> x / 2"
    using x0 by (intro divide_left_mono) simp_all
  have a_ge: "x / 2 \<le> a"
    using ea half by linarith
  have a_le: "a \<le> 2 * x"
    using ea half x0 by linarith
  have lo2: "2 powi (- 1022) \<le> a * 100"
  proof -
    have "1 / 2 ^ 33 \<le> x / 2" using x_ge by simp
    also have "\<dots> \<le> a" by (rule a_ge)
    also have "\<dots> \<le> a * 100" using a_ge x0 by simp
    finally show ?thesis using tiny_le by linarith
  qed
  have hi2: "a * 100 \<le> 1024" using a_le x_le by simp
  from rnd_normal[OF lo2 hi2] obtain b where b: "rnd (a * 100) = Fin b"
    and eb: "\<bar>b - a * 100\<bar> \<le> a * 100 / 2 ^ 53"
    by auto
  have tn: "of_nat t \<noteq> (0::rat)" using t0 by simp
  have "fdiv (num v) (num t) = Fin a"
    using a tn by (simp add: num_def x_def)
  then have q: "fmul (fdiv (num v) (num t)) (Fin 100) = Fin b"
    using b by simp
  have "a * 100 / 2 ^ 53 \<le> (2 * x) * 100 / 2 ^ 53"
    using a_le by (intro divide_right_mono mult_right_mono) simp_all
  with eb ea have "\<bar>b - 100 * x\<bar> \<le> (2 * x) * 100 / 2 ^ 53 + 100 * (x / 2 ^ 53)"
    by linarith
  also have "\<dots> = 300 * x / 2 ^ 53" by simp
  also have "\<dots> \<le> (100 * x) / 2 ^ 51"
    using x0 by simp
  finally have "\<bar>b - 100 * x\<bar> \<le> (100 * x) / 2 ^ 51" .
  with q show ?thesis
    by (auto simp: x_def)
qed

lemma fdiv_0_0: "fdiv (num 0) (num 0) = NaN"
  by (simp add: num_def)

section \<open>The aggregator\<close>

lemma count_option_ids:
  "distinct (map o_id opts) \<Longrightarrow>
   sum_list (map (\<lambda>opt. if x = o_id opt then 1 else 0) opts)
     = (if x \<in> o_id ` set opts then 1 else (0::nat))"
  by (induction opts) auto

lemma sum_option_votes:
  assumes "distinct (map o_id opts)" and "\<forall>v \<in> set vs. v_optionId v \<in> o_id ` set opts"
  shows "sum_list (map (\<lambda>opt. length (filter (\<lambda>v. v_optionId v = o_id opt) vs)) opts) = length vs"
  using assms(2)
proof (induction vs)
  case Nil
  then show ?case by simp
next
  case (Cons v vs)
  have "sum_list (map (\<lambda>opt. length (filter (\<lambda>v. v_optionId v = o_id opt) (v # vs))) opts)
      = sum_list (map (\<lambda>opt. (if v_optionId v = o_id opt then 1 else 0)
                         + length (filter (\<lambda>v. v_optionId v = o_id opt) vs)) opts)"
    by (rule arg_cong[where f=sum_list]) simp
  also have "\<dots> = sum_list (map (\<lambda>opt. if v_optionId v = o_id opt then 1 else 0) opts)
                 + sum_list (map (\<lambda>opt. length (filter (\<lambda>v. v_optionId v = o_id opt) vs)) opts)"
    by (simp add: sum_list_addf)
  also have "\<dots> = 1 + length vs"
    using Cons count_option_ids[OF assms(1), of "v_optionId v"] by simp
  finally show ?case by simp
qed

lemma o_votes_aggregateOption:
  "o_votes (aggregateOption vs opt) = length (filter (\<lambda>v. v_optionId v = o_id opt) vs)"
  by (simp add: aggregateOption_def Let_def)

lemma o_percentage_aggregateOption:
  "o_percentage (aggregateOption vs opt) =
     (if length vs > 0
      then fmul (fdiv (num (o_votes (aggregateOption vs opt))) (num (length vs))) (Fin 100)
      else Fin 0)"
  by (simp add: aggregateOption_def Let_def)

lemma getPollWithResults_Some:
  assumes "getPollWithResults s pollId = Some view"
  obtains p where "polls s pollId = Some p"
    and "p_options view = map (aggregateOption (getVotes s pollId)) (p_options p)"
    and "p_totalVotes view = length (getVotes s pollId)"
  using assms
  by (auto simp: getPollWithResults_def aggregateResults_def split: option.splits)

lemma view_sum:
  assumes "storeInv s" and p: "polls s pollId = Some p" and d: "distinct (map o_id (p_options p))"
    and "getPollWithResults s pollId = Some view"
  shows "sum_list (map o_votes (p_options view)) = p_totalVotes view"
proof -
  from assms(4) p have
    opts: "p_options view = map (aggregateOption (getVotes s pollId)) (p_options p)"
    and tot: "p_totalVotes view = length (getVotes s pollId)"
    by (auto elim: getPollWithResults_Some)
  from assms(1) p have
    m: "\<forall>v \<in> set (getVotes s pollId). v_optionId v \<in> o_id ` set (p_options p)"
    unfolding storeInv_def by blast
  have "map o_votes (p_options view)
      = map (\<lambda>opt. length (filter (\<lambda>v. v_optionId v = o_id opt) (getVotes s pollId))) (p_options p)"
    by (simp add: opts o_votes_aggregateOption comp_def)
  then show ?thesis
    using sum_option_votes[OF d m] by (simp add: tot)
qed

section \<open>What each handler does to the store\<close>

lemma find_option_None:
  "(find (\<lambda>opt. o_id opt = x) opts = None) = (x \<notin> o_id ` set opts)"
  by (induction opts) auto

lemma storeInv_empty: "storeInv emptyStore"
  by (simp add: storeInv_def emptyStore_def getVotes_def votersOf_def)

lemma voteRoute_cases:
  assumes "voteRoute s pollId body voteId now = (r, s')"
  shows "(s' = s \<and> (\<exists>e. r = Inl e)) \<or>
         (\<exists>b req p. body = Some b \<and> asVoteRequest b = Some req \<and> polls s pollId = Some p \<and>
            p_status p = active \<and> vq_optionId req \<in> o_id ` set (p_options p) \<and>
            vq_voterId req \<notin> votersOf s pollId \<and>
            s' = appendVote s \<lparr>v_id = voteId, v_pollId = pollId, v_optionId = vq_optionId req,
                                 v_voterId = vq_voterId req, v_timestamp = now\<rparr> \<and>
            r = Inr \<lparr>vr_votedOptionId = vq_optionId req, vr_poll = getPollWithResults s' pollId\<rparr>)"
  using assms
  by (auto simp: voteRoute_def Let_def getPoll_def hasVoted_def addVote_def appendVote_def
        find_option_None
      split: option.splits if_splits)

lemma getVotes_appendVote:
  "getVotes (appendVote s v) pollId =
     (if pollId = v_pollId v then getVotes s pollId @ [v] else getVotes s pollId)"
  by (simp add: appendVote_def getVotes_def)

lemma votersOf_appendVote:
  "votersOf (appendVote s v) pollId =
     (if pollId = v_pollId v then insert (v_voterId v) (votersOf s pollId) else votersOf s pollId)"
  by (simp add: appendVote_def votersOf_def)

lemma polls_appendVote: "polls (appendVote s v) = polls s"
  by (simp add: appendVote_def)

lemma storeInv_appendVote:
  assumes "storeInv s" and "polls s (v_pollId v) = Some p"
    and "v_optionId v \<in> o_id ` set (p_options p)" and "v_voterId v \<notin> votersOf s (v_pollId v)"
  shows "storeInv (appendVote s v)"
  using assms unfolding storeInv_def
  by (auto simp: getVotes_appendVote votersOf_appendVote polls_appendVote)

lemma storeInv_voteRoute:
  assumes "storeInv s" and "voteRoute s pollId body voteId now = (r, s')"
  shows "storeInv s'"
  using voteRoute_cases[OF assms(2)] assms(1)
  by (auto intro!: storeInv_appendVote)

lemma endRoute_cases:
  assumes "endRoute s pollId body = (r, s')"
  shows "(s' = s \<and> (\<exists>e. r = Inl e)) \<or>
         (\<exists>p. polls s pollId = Some p \<and>
              s' = s\<lparr>polls := (polls s)(pollId \<mapsto> p\<lparr>p_status := ended\<rparr>)\<rparr> \<and>
              r = Inr (getPollWithResults s' pollId))"
  using assms
  by (auto simp: endRoute_def getPoll_def updatePoll_def Let_def split: option.splits if_splits)

lemma storeInv_polls_update:
  assumes inv: "storeInv s"
    and gv: "\<And>q. getVotes s' q = getVotes s q"
    and vo: "\<And>q. votersOf s' q = votersOf s q"
    and po: "\<And>q pa. polls s' q = Some pa \<Longrightarrow> \<exists>p0. polls s q = Some p0 \<and> p_options pa = p_options p0"
  shows "storeInv s'"
  unfolding storeInv_def gv vo
proof (intro conjI allI impI)
  fix q pa
  assume "polls s' q = Some pa"
  then obtain p0 where p0: "polls s q = Some p0" "p_options pa = p_options p0"
    using po by blast
  from inv p0(1) show "\<forall>v \<in> set (getVotes s q). v_optionId v \<in> o_id ` set (p_options pa)"
    unfolding storeInv_def p0(2) by blast
next
  fix q
  from inv show "distinct (map v_voterId (getVotes s q))"
    unfolding storeInv_def by blast
  from inv show "votersOf s q = v_voterId ` set (getVotes s q)"
    unfolding storeInv_def by blast
qed

lemma storeInv_endRoute:
  assumes "storeInv s" and "endRoute s pollId body = (r, s')"
  shows "storeInv s'"
proof -
  from endRoute_cases[OF assms(2)]
  consider "s' = s"
    | p where "polls s pollId = Some p" "s' = s\<lparr>polls := (polls s)(pollId \<mapsto> p\<lparr>p_status := ended\<rparr>)\<rparr>"
    by blast
  then show ?thesis
  proof cases
    case 1
    with assms(1) show ?thesis by simp
  next
    case 2
    show ?thesis
    proof (rule storeInv_polls_update[OF assms(1)])
      show "\<And>q. getVotes s' q = getVotes s q" by (simp add: 2 getVotes_def)
      show "\<And>q. votersOf s' q = votersOf s q" by (simp add: 2 votersOf_def)
      show "\<And>q pa. polls s' q = Some pa \<Longrightarrow> \<exists>p0. polls s q = Some p0 \<and> p_options pa = p_options p0"
        using 2(1) by (auto simp: 2(2) split: if_splits)
    qed
  qed
qed

lemma createPollRoute_cases:
  assumes "createPollRoute s body pollId gen now = (r, s')"
  shows "(s' = s \<and> (\<exists>e. r = Inl e)) \<or>
         (\<exists>p. r = Inr p \<and> p_id p = pollId \<and>
              s' = s\<lparr>polls := (polls s)(pollId \<mapsto> p), votes := (votes s)(pollId \<mapsto> []),
                     pollVoters := (pollVoters s)(pollId \<mapsto> {})\<rparr>)"
  using assms
  by (auto simp: createPollRoute_def createPoll_def Let_def split: option.splits if_splits)

lemma storeInv_createPollRoute:
  assumes "storeInv s" and "createPollRoute s body pollId gen now = (r, s')"
  shows "storeInv s'"
proof -
  from createPollRoute_cases[OF assms(2)]
  consider "s' = s"
    | p where "r = Inr p"
        "s' = s\<lparr>polls := (polls s)(pollId \<mapsto> p), votes := (votes s)(pollId \<mapsto> []),
                 pollVoters := (pollVoters s)(pollId \<mapsto> {})\<rparr>"
    by blast
  then show ?thesis
  proof cases
    case 1
    with assms(1) show ?thesis by simp
  next
    case 2
    have gv: "\<And>q. getVotes s' q = (if q = pollId then [] else getVotes s q)"
      by (simp add: 2(2) getVotes_def)
    have vo: "\<And>q. votersOf s' q = (if q = pollId then {} else votersOf s q)"
      by (simp add: 2(2) votersOf_def)
    have po: "\<And>q. polls s' q = (if q = pollId then Some p else polls s q)"
      by (simp add: 2(2))
    show ?thesis
      unfolding storeInv_def gv vo po
      using assms(1)[unfolded storeInv_def] by auto
  qed
qed

lemma reachable_storeInv: "reachable s \<Longrightarrow> storeInv s"
proof (induction rule: reachable.induct)
  case r_init
  show ?case by (rule storeInv_empty)
next
  case (r_create s body pollId gen now r s')
  then show ?case by (blast intro: storeInv_createPollRoute)
next
  case (r_vote s pollId body voteId now r s')
  then show ?case by (blast intro: storeInv_voteRoute)
next
  case (r_end s pollId body r s')
  then show ?case by (blast intro: storeInv_endRoute)
qed

text \<open>
  Every aggregated view a handler returns is \<open>getPollWithResults\<close> of the store the
  handler leaves behind.
\<close>

lemma getPollRoute_view:
  "getPollRoute s pollId = Inr view \<Longrightarrow> getPollWithResults s pollId = Some view"
  by (auto simp: getPollRoute_def split: option.splits)

lemma resultsRoute_view:
  "resultsRoute s pollId = Inr res \<Longrightarrow>
     \<exists>view. getPollWithResults s pollId = Some view \<and> res_results res = p_options view \<and>
            res_totalVotes res = p_totalVotes view"
  by (auto simp: resultsRoute_def split: option.splits)

lemma voteRoute_view:
  "voteRoute s pollId body voteId now = (Inr resp, s') \<Longrightarrow> vr_poll resp = getPollWithResults s' pollId"
  by (drule voteRoute_cases) auto

lemma endRoute_view:
  "endRoute s pollId body = (Inr view, s') \<Longrightarrow> view = getPollWithResults s' pollId"
  by (drule endRoute_cases) auto

section \<open>Validation of a vote\<close>

lemma validateVote_typed:
  assumes "isValid (validateVote b)"
  shows "\<exists>oid vid. getProp b ''optionId'' = JStr oid \<and> getProp b ''voterId'' = JStr vid \<and>
           oid \<noteq> [] \<and> vid \<noteq> [] \<and> asVoteRequest b = Some \<lparr>vq_optionId = oid, vq_voterId = vid\<rparr>"
proof -
  have t: "truthy b"
    using assms by (auto simp: validateVote_def split: if_splits)
  have o: "truthy (getProp b ''optionId'')" "\<exists>oid. getProp b ''optionId'' = JStr oid"
    using assms t by (auto simp: validateVote_def Let_def split: if_splits jsval.splits)
  have v: "truthy (getProp b ''voterId'')" "\<exists>vid. getProp b ''voterId'' = JStr vid"
    using assms t by (auto simp: validateVote_def Let_def split: if_splits jsval.splits)
  from o v show ?thesis
    by (auto simp: asVoteRequest_def)
qed

lemma voteRoute_hasVoted_fails:
  assumes "asVoteRequest b = Some req" and "vq_voterId req \<in> votersOf s pollId"
  shows "\<exists>e. voteRoute s pollId (Some b) voteId now = (Inl e, s)"
  using assms
  by (auto simp: voteRoute_def Let_def getPoll_def hasVoted_def split: option.splits)

lemma voteRoute_hasVoted_ALREADY:
  assumes "asVoteRequest b = Some req" and "vq_voterId req \<in> votersOf s pollId"
    and "isValid (validateVote b)" and "polls s pollId = Some p" and "p_status p = active"
    and "vq_optionId req \<in> o_id ` set (p_options p)"
  shows "voteRoute s pollId (Some b) voteId now = (Inl ALREADY_VOTED, s)"
  using assms
  by (simp add: voteRoute_def Let_def getPoll_def hasVoted_def find_option_None)

lemma distinct_filter_le1:
  "distinct (map f xs) \<Longrightarrow> length (filter (\<lambda>x. f x = a) xs) \<le> 1"
  by (induction xs) (auto simp: filter_empty_conv image_iff)

section \<open>The running example, step by step\<close>

lemma trim_example:
  "trim ''Lunch?'' = ''Lunch?''" "trim ''Sushi'' = ''Sushi''" "trim ''Ramen'' = ''Ramen''"
  by (simp_all add: trim_def isWhitespace_def)

lemma valid_lunch:
  "validatePollCreation (createBody ''Lunch?'' [''Sushi'', ''Ramen''])
     = \<lparr>isValid = True, errors = []\<rparr>"
  by (simp add: validatePollCreation_def createBody_def validateTitle_def validateOptions_def
      trim_example)

lemma ex_create:
  "createPollRoute emptyStore (Some (createBody ''Lunch?'' [''Sushi'', ''Ramen''])) ''p1'' exGen 1000
     = (Inr lunchPoll, store1)"
  apply (simp add: createPollRoute_def valid_lunch Let_def)
  apply (simp add: asCreatePollRequest_def createBody_def sanitizePollData_def trim_example
      exGen_def lunchPoll_def store1_def createPoll_def emptyStore_def Let_def)
  done

lemma ex_view: "getPollWithResults store2 ''p1'' = Some lunchView"
  by (simp add: getPollWithResults_def store2_def aggregateResults_def aggregateOption_def
      getVotes_def lunchPoll_def lunchView_def vote1_def Let_def pct_1_of_1 pct_0_of_1)

lemma ex_view0: "getPollWithResults store1 ''p1'' = Some lunchPoll"
  by (simp add: getPollWithResults_def store1_def aggregateResults_def aggregateOption_def
      getVotes_def lunchPoll_def Let_def)

lemma votes_store25:
  "getVotes store25 ''p1'' = map (voteOf ''o'') [0..<7] @ map (voteOf ''oo'') [7..<25]"
  by (simp add: getVotes_def store25_def)

lemma count_votes25:
  "length (filter (\<lambda>v. v_optionId v = ''o'') (getVotes store25 ''p1'')) = 7"
  "length (filter (\<lambda>v. v_optionId v = ''oo'') (getVotes store25 ''p1'')) = 18"
  "length (getVotes store25 ''p1'') = 25"
  by (simp_all add: votes_store25 filter_map comp_def voteOf_def)

lemma ex_view25: "getPollWithResults store25 ''p1'' = Some lunchView25"
proof -
  have p: "polls store25 ''p1'' = Some lunchPoll"
    by (simp add: store25_def)
  have a: "aggregateOption (getVotes store25 ''p1'')
             \<lparr>o_id = ''o'', o_text = ''Sushi'', o_votes = 0, o_percentage = Fin 0\<rparr> = sushi25"
    by (simp add: aggregateOption_def Let_def count_votes25 pct_7_of_25 sushi25_def)
  have b: "aggregateOption (getVotes store25 ''p1'')
             \<lparr>o_id = ''oo'', o_text = ''Ramen'', o_votes = 0, o_percentage = Fin 0\<rparr> = ramen25"
    by (simp add: aggregateOption_def Let_def count_votes25 pct_18_of_25 ramen25_def)
  have "aggregateResults store25 ''p1'' = [sushi25, ramen25]"
    using a b by (simp add: aggregateResults_def p) (simp add: lunchPoll_def)
  then show ?thesis
    by (simp add: getPollWithResults_def p count_votes25 lunchView25_def)
qed

lemma valid_vote: "voter \<noteq> [] \<Longrightarrow> oid \<noteq> [] \<Longrightarrow> isValid (validateVote (voteBody oid voter))"
  by (simp add: validateVote_def voteBody_def)

lemma asVoteRequest_voteBody:
  "asVoteRequest (voteBody oid voter) = Some \<lparr>vq_optionId = oid, vq_voterId = voter\<rparr>"
  by (simp add: asVoteRequest_def voteBody_def)

lemma ex_vote:
  "voteRoute store1 ''p1'' (Some (voteBody ''o'' ''v1'')) ''vote-1'' 2000
     = (Inr \<lparr>vr_votedOptionId = ''o'', vr_poll = Some lunchView\<rparr>, store2)"
proof -
  have "voteRoute store1 ''p1'' (Some (voteBody ''o'' ''v1'')) ''vote-1'' 2000
     = (Inr \<lparr>vr_votedOptionId = ''o'', vr_poll = getPollWithResults store2 ''p1''\<rparr>, store2)"
    by (simp add: voteRoute_def validateVote_def voteBody_def asVoteRequest_def getPoll_def
        store1_def store2_def lunchPoll_def hasVoted_def votersOf_def addVote_def getVotes_def
        vote1_def Let_def)
  then show ?thesis by (simp add: ex_view)
qed

lemma ex_end:
  "endRoute store2 ''p1'' (Some (endBody ''anonymous''))
     = (Inr (getPollWithResults store3 ''p1''), store3)"
  by (simp add: endRoute_def endBody_def getPoll_def store2_def store3_def lunchPoll_def
      updatePoll_def Let_def)

lemma reachable_store1: "reachable store1"
  by (rule r_create[OF r_init ex_create])

lemma reachable_store2: "reachable store2"
  by (rule r_vote[OF reachable_store1 ex_vote])

lemma reachable_store3: "reachable store3"
  by (rule r_end[OF reachable_store2 ex_end])

lemma votes_store2: "getVotes store2 ''p1'' = [vote1]"
  by (simp add: getVotes_def store2_def)

lemma votes_store3: "getVotes store3 ''p1'' = [vote1]"
  by (simp add: getVotes_def store3_def)

lemma polls_store2: "polls store2 ''p1'' = Some lunchPoll"
  by (simp add: store2_def)

lemma polls_store3: "polls store3 ''p1'' = Some (lunchPoll\<lparr>p_status := ended\<rparr>)"
  by (simp add: store3_def)

section \<open>Claims about votes\<close>

text \<open>
  Claim C1, as amended. In every store the handlers can reach, the vote log of a poll
  holds at most one vote of a given voter. A vote request whose voter already has a vote
  in the log of that poll fails and returns the store as it was (vote log, voter set
  and hence tallies). The error is \<open>ALREADY_VOTED\<close> when the request passes validation,
  the poll is active and the option belongs to the poll; the checks for these come
  first in the handler and answer with their own error otherwise.
\<close>

theorem one_vote_per_voter:
  assumes "reachable s"
  shows "length (filter (\<lambda>v. v_voterId v = voter) (getVotes s pollId)) \<le> 1 \<and>
         (\<forall>b req. asVoteRequest b = Some req \<and>
                  vq_voterId req \<in> v_voterId ` set (getVotes s pollId) \<longrightarrow>
            (\<exists>e. voteRoute s pollId (Some b) voteId now = (Inl e, s)) \<and>
            (isValid (validateVote b) \<and>
             (\<exists>p. polls s pollId = Some p \<and> p_status p = active \<and>
                  vq_optionId req \<in> o_id ` set (p_options p)) \<longrightarrow>
               voteRoute s pollId (Some b) voteId now = (Inl ALREADY_VOTED, s)))"
proof -
  have inv: "storeInv s"
    using assms by (rule reachable_storeInv)
  then have d: "distinct (map v_voterId (getVotes s pollId))"
    and vo: "votersOf s pollId = v_voterId ` set (getVotes s pollId)"
    unfolding storeInv_def by blast+
  show ?thesis
  proof (intro conjI allI impI)
    show "length (filter (\<lambda>v. v_voterId v = voter) (getVotes s pollId)) \<le> 1"
      using d by (rule distinct_filter_le1)
  next
    fix b req
    assume "asVoteRequest b = Some req \<and> vq_voterId req \<in> v_voterId ` set (getVotes s pollId)"
    then show "\<exists>e. voteRoute s pollId (Some b) voteId now = (Inl e, s)"
      using voteRoute_hasVoted_fails vo by blast
  next
    fix b req
    assume a: "asVoteRequest b = Some req \<and> vq_voterId req \<in> v_voterId ` set (getVotes s pollId)"
      and c: "isValid (validateVote b) \<and>
             (\<exists>p. polls s pollId = Some p \<and> p_status p = active \<and>
                  vq_optionId req \<in> o_id ` set (p_options p))"
    then show "voteRoute s pollId (Some b) voteId now = (Inl ALREADY_VOTED, s)"
      using voteRoute_hasVoted_ALREADY vo by blast
  qed
qed

text \<open>The second vote of \<open>v1\<close> in the scenario, for Ramen, while the poll is active.\<close>

theorem one_vote_per_voter_witness:
  "reachable store2 \<and>
   asVoteRequest (voteBody ''oo'' ''v1'') = Some \<lparr>vq_optionId = ''oo'', vq_voterId = ''v1''\<rparr> \<and>
   ''v1'' \<in> v_voterId ` set (getVotes store2 ''p1'') \<and>
   isValid (validateVote (voteBody ''oo'' ''v1'')) \<and>
   polls store2 ''p1'' = Some lunchPoll \<and> p_status lunchPoll = active \<and>
   ''oo'' \<in> o_id ` set (p_options lunchPoll) \<and>
   length (filter (\<lambda>v. v_voterId v = ''v1'') (getVotes store2 ''p1'')) \<le> 1 \<and>
   voteRoute store2 ''p1'' (Some (voteBody ''oo'' ''v1'')) ''vote-2'' 3000 = (Inl ALREADY_VOTED, store2)"
proof -
  have h1: "''v1'' \<in> v_voterId ` set (getVotes store2 ''p1'')"
    by (simp add: votes_store2 vote1_def)
  have h2: "isValid (validateVote (voteBody ''oo'' ''v1''))"
    by (simp add: valid_vote)
  have h3: "p_status lunchPoll = active" "''oo'' \<in> o_id ` set (p_options lunchPoll)"
    by (simp_all add: lunchPoll_def)
  note t = one_vote_per_voter[OF reachable_store2, of "''v1''" "''p1''" "''vote-2''" 3000]
  from t have "length (filter (\<lambda>v. v_voterId v = ''v1'') (getVotes store2 ''p1'')) \<le> 1"
    by blast
  moreover from t asVoteRequest_voteBody[of "''oo''" "''v1''"] h1 h2 h3 polls_store2
  have "voteRoute store2 ''p1'' (Some (voteBody ''oo'' ''v1'')) ''vote-2'' 3000 = (Inl ALREADY_VOTED, store2)"
    by (metis VoteRequest.select_convs(1,2))
  ultimately show ?thesis
    using reachable_store2 asVoteRequest_voteBody h1 h2 h3 polls_store2 by blast
qed

text \<open>
  The claim as it was stated fails once the poll has ended: the same second vote of
  \<open>v1\<close> is then refused with \<open>POLL_ENDED\<close>, not with \<open>ALREADY_VOTED\<close>. It
  fails as well while the poll is active when the second vote names an option the poll
  does not have: the error is \<open>INVALID_OPTION\<close>.
\<close>

theorem duplicate_vote_on_ended_poll_counterexample:
  "reachable store3 \<and>
   ''v1'' \<in> v_voterId ` set (getVotes store3 ''p1'') \<and>
   isValid (validateVote (voteBody ''oo'' ''v1'')) \<and>
   voteRoute store3 ''p1'' (Some (voteBody ''oo'' ''v1'')) ''vote-2'' 3000 = (Inl POLL_ENDED, store3) \<and>
   fst (voteRoute store3 ''p1'' (Some (voteBody ''oo'' ''v1'')) ''vote-2'' 3000) \<noteq> Inl ALREADY_VOTED \<and>
   reachable store2 \<and>
   ''v1'' \<in> v_voterId ` set (getVotes store2 ''p1'') \<and>
   isValid (validateVote (voteBody ''x'' ''v1'')) \<and>
   voteRoute store2 ''p1'' (Some (voteBody ''x'' ''v1'')) ''vote-2'' 3000 = (Inl INVALID_OPTION, store2)"
proof -
  have v: "isValid (validateVote (voteBody ''oo'' ''v1''))" "isValid (validateVote (voteBody ''x'' ''v1''))"
    by (simp_all add: valid_vote)
  have a: "voteRoute store3 ''p1'' (Some (voteBody ''oo'' ''v1'')) ''vote-2'' 3000 = (Inl POLL_ENDED, store3)"
    using v by (simp add: voteRoute_def Let_def asVoteRequest_voteBody getPoll_def polls_store3)
  have b: "voteRoute store2 ''p1'' (Some (voteBody ''x'' ''v1'')) ''vote-2'' 3000 = (Inl INVALID_OPTION, store2)"
    using v
    by (simp add: voteRoute_def Let_def asVoteRequest_voteBody getPoll_def polls_store2 lunchPoll_def)
  show ?thesis
    using a b v reachable_store2 reachable_store3 by (simp add: votes_store2 votes_store3 vote1_def)
qed

text \<open>
  Claim C7. A vote request against a poll whose status is \<open>ended\<close> never succeeds and
  leaves the store as it was, so no vote is appended; when the request passes the
  validation of the handler (the vote operation of the specification takes validated
  inputs) the error is \<open>POLL_ENDED\<close>.
\<close>

theorem vote_on_ended_poll_fails:
  assumes "polls s pollId = Some p" and "p_status p = ended"
  shows "(\<exists>e. voteRoute s pollId body voteId now = (Inl e, s)) \<and>
         (\<forall>b. body = Some b \<and> isValid (validateVote b) \<longrightarrow>
              voteRoute s pollId body voteId now = (Inl POLL_ENDED, s))"
proof (intro conjI allI impI)
  show "\<exists>e. voteRoute s pollId body voteId now = (Inl e, s)"
    using assms
    by (auto simp: voteRoute_def Let_def getPoll_def split: option.splits)
next
  fix b
  assume b: "body = Some b \<and> isValid (validateVote b)"
  then obtain req where "asVoteRequest b = Some req"
    using validateVote_typed by blast
  with b assms show "voteRoute s pollId body voteId now = (Inl POLL_ENDED, s)"
    by (simp add: voteRoute_def Let_def getPoll_def)
qed

text \<open>The last step of the scenario: voter \<open>v3\<close> votes after the poll was ended.\<close>

theorem vote_on_ended_poll_fails_witness:
  "polls store3 ''p1'' = Some (lunchPoll\<lparr>p_status := ended\<rparr>) \<and>
   p_status (lunchPoll\<lparr>p_status := ended\<rparr>) = ended \<and>
   isValid (validateVote (voteBody ''o'' ''v3'')) \<and>
   voteRoute store3 ''p1'' (Some (voteBody ''o'' ''v3'')) ''vote-3'' 4000 = (Inl POLL_ENDED, store3)"
proof -
  have h: "p_status (lunchPoll\<lparr>p_status := ended\<rparr>) = ended"
    by simp
  have v: "isValid (validateVote (voteBody ''o'' ''v3''))"
    by (simp add: valid_vote)
  from vote_on_ended_poll_fails[OF polls_store3 h, of "Some (voteBody ''o'' ''v3'')" "''vote-3''" 4000] v
  have "voteRoute store3 ''p1'' (Some (voteBody ''o'' ''v3'')) ''vote-3'' 4000 = (Inl POLL_ENDED, store3)"
    by blast
  then show ?thesis
    using polls_store3 h v by blast
qed

section \<open>Claims about the aggregated view\<close>

text \<open>
  Claim C5. In every store the handlers can reach, the vote counts of the options of
  an aggregated view add up to its \<open>totalVotes\<close>, for every poll whose options have
  pairwise distinct identifiers, as the data model asks of the identifiers that
  \<^verbatim>\<open>generateOptionId\<close> draws at random. The view is the one \<open>getPollWithResults\<close>
  builds, which is what the poll, the vote, the results and the end handler return
  (lemmas \<open>getPollRoute_view\<close>, \<open>voteRoute_view\<close>, \<open>resultsRoute_view\<close>,
  \<open>endRoute_view\<close>).
\<close>

theorem option_votes_sum_to_total:
  assumes "reachable s" and "polls s pollId = Some p" and "distinct (map o_id (p_options p))"
    and "getPollWithResults s pollId = Some view"
  shows "sum_list (map o_votes (p_options view)) = p_totalVotes view"
  using assms by (blast intro: view_sum reachable_storeInv)

theorem option_votes_sum_to_total_witness:
  "reachable store2 \<and> polls store2 ''p1'' = Some lunchPoll \<and>
   distinct (map o_id (p_options lunchPoll)) \<and>
   getPollWithResults store2 ''p1'' = Some lunchView \<and>
   sum_list (map o_votes (p_options lunchView)) = p_totalVotes lunchView \<and>
   p_totalVotes lunchView = 1"
proof -
  have d: "distinct (map o_id (p_options lunchPoll))"
    by (simp add: lunchPoll_def)
  from option_votes_sum_to_total[OF reachable_store2 polls_store2 d ex_view]
  show ?thesis
    using reachable_store2 polls_store2 d ex_view by (simp add: lunchView_def)
qed

text \<open>
  Claim C6. In an aggregated view the percentage of an option is the double the code
  computes from the two counts of the view: the quotient of the vote count of the
  option by \<open>totalVotes\<close>, rounded, times 100, rounded again, when \<open>totalVotes\<close> is
  positive, and 0 otherwise (without the test the quotient of 0 by 0 would be
  \<^verbatim>\<open>NaN\<close>). Nothing rescales the percentages afterwards: they are these values,
  rounding errors included, so each is a finite number within \<open>1 / 2 ^ 51\<close>,
  relatively, of the exact share \<open>100 * votes / totalVotes\<close> (for a vote log shorter
  than \<open>2 ^ 32\<close>, the longest array JavaScript has).
\<close>

theorem percentage_is_share_of_total:
  assumes "getPollWithResults s pollId = Some view" and "opt \<in> set (p_options view)"
  shows "o_percentage opt =
           (if p_totalVotes view > 0
            then fmul (fdiv (num (o_votes opt)) (num (p_totalVotes view))) (Fin 100)
            else Fin 0) \<and>
         (0 < p_totalVotes view \<and> p_totalVotes view < 2 ^ 32 \<longrightarrow>
            (\<exists>q. o_percentage opt = Fin q \<and>
               \<bar>q - 100 * of_nat (o_votes opt) / of_nat (p_totalVotes view)\<bar>
                 \<le> (100 * of_nat (o_votes opt) / of_nat (p_totalVotes view)) / 2 ^ 51))"
proof -
  from assms(1) obtain p where p: "polls s pollId = Some p"
    and opts: "p_options view = map (aggregateOption (getVotes s pollId)) (p_options p)"
    and tot: "p_totalVotes view = length (getVotes s pollId)"
    by (rule getPollWithResults_Some)
  from assms(2) opts obtain opt0 where opt: "opt = aggregateOption (getVotes s pollId) opt0"
    by auto
  have eq: "o_percentage opt =
           (if p_totalVotes view > 0
            then fmul (fdiv (num (o_votes opt)) (num (p_totalVotes view))) (Fin 100)
            else Fin 0)"
    unfolding tot opt by (simp only: o_percentage_aggregateOption)
  have le: "o_votes opt \<le> p_totalVotes view"
    unfolding tot opt by (simp add: o_votes_aggregateOption)
  show ?thesis
  proof (intro conjI impI)
    show "o_percentage opt =
           (if p_totalVotes view > 0
            then fmul (fdiv (num (o_votes opt)) (num (p_totalVotes view))) (Fin 100)
            else Fin 0)"
      by (rule eq)
  next
    assume b: "0 < p_totalVotes view \<and> p_totalVotes view < 2 ^ 32"
    then have "o_percentage opt = fmul (fdiv (num (o_votes opt)) (num (p_totalVotes view))) (Fin 100)"
      using eq by simp
    with percentage_of_counts_close[OF le, of] b
    show "\<exists>q. o_percentage opt = Fin q \<and>
               \<bar>q - 100 * of_nat (o_votes opt) / of_nat (p_totalVotes view)\<bar>
                 \<le> (100 * of_nat (o_votes opt) / of_nat (p_totalVotes view)) / 2 ^ 51"
      by simp
  qed
qed

text \<open>
  Seven of 25 votes: the code shows \<^verbatim>\<open>28.000000000000004\<close>, which is the double
  \<open>28 + 1 / 2 ^ 48\<close>, and the two percentages of the view do not add up to 100. With
  no vote at all the percentage is 0, where the division alone would give
  \<^verbatim>\<open>NaN\<close>.
\<close>

theorem percentage_is_share_of_total_witness:
  "getPollWithResults store25 ''p1'' = Some lunchView25 \<and>
   sushi25 \<in> set (p_options lunchView25) \<and> p_totalVotes lunchView25 > 0 \<and>
   o_percentage sushi25 = fmul (fdiv (num 7) (num 25)) (Fin 100) \<and>
   o_percentage sushi25 = Fin (28 + 1 / 2 ^ 48) \<and>
   p_totalVotes lunchView25 < 2 ^ 32 \<and>
   \<bar>(28 + 1 / 2 ^ 48) - 100 * of_nat (o_votes sushi25) / of_nat (p_totalVotes lunchView25)\<bar>
     \<le> (100 * of_nat (o_votes sushi25) / of_nat (p_totalVotes lunchView25)) / (2 ^ 51 :: rat) \<and>
   map o_percentage (p_options lunchView25) = [Fin (28 + 1 / 2 ^ 48), Fin 72] \<and>
   (28 + 1 / 2 ^ 48) + 72 \<noteq> (100 :: rat) \<and>
   getPollWithResults store1 ''p1'' = Some lunchPoll \<and>
   \<lparr>o_id = ''o'', o_text = ''Sushi'', o_votes = 0, o_percentage = Fin 0\<rparr> \<in> set (p_options lunchPoll) \<and>
   \<not> p_totalVotes lunchPoll > 0 \<and>
   o_percentage \<lparr>o_id = ''o'', o_text = ''Sushi'', o_votes = 0, o_percentage = Fin 0\<rparr> = Fin 0 \<and>
   fdiv (num 0) (num 0) = NaN"
proof -
  have m: "sushi25 \<in> set (p_options lunchView25)"
    by (simp add: lunchView25_def)
  have t: "p_totalVotes lunchView25 > 0"
    by (simp add: lunchView25_def)
  have t32: "p_totalVotes lunchView25 < 2 ^ 32"
    by (simp add: lunchView25_def)
  from percentage_is_share_of_total[OF ex_view25 m] t
  have a: "o_percentage sushi25 = fmul (fdiv (num 7) (num 25)) (Fin 100)"
    by (simp add: lunchView25_def sushi25_def)
  from percentage_is_share_of_total[OF ex_view25 m] t t32
  have "\<exists>q. o_percentage sushi25 = Fin q \<and>
          \<bar>q - 100 * of_nat (o_votes sushi25) / of_nat (p_totalVotes lunchView25)\<bar>
            \<le> (100 * of_nat (o_votes sushi25) / of_nat (p_totalVotes lunchView25)) / 2 ^ 51"
    by blast
  then have e: "\<bar>(28 + 1 / 2 ^ 48) - 100 * of_nat (o_votes sushi25) / of_nat (p_totalVotes lunchView25)\<bar>
     \<le> (100 * of_nat (o_votes sushi25) / of_nat (p_totalVotes lunchView25)) / (2 ^ 51 :: rat)"
    by (auto simp: sushi25_def)
  have m0: "\<lparr>o_id = ''o'', o_text = ''Sushi'', o_votes = 0, o_percentage = Fin 0\<rparr> \<in> set (p_options lunchPoll)"
    by (simp add: lunchPoll_def)
  have t0: "\<not> p_totalVotes lunchPoll > 0"
    by (simp add: lunchPoll_def)
  from conjunct1[OF percentage_is_share_of_total[OF ex_view0 m0]] t0
  have b: "o_percentage \<lparr>o_id = ''o'', o_text = ''Sushi'', o_votes = 0, o_percentage = Fin 0\<rparr> = Fin 0"
    by simp
  have c: "map o_percentage (p_options lunchView25) = [Fin (28 + 1 / 2 ^ 48), Fin 72]"
    by (simp add: lunchView25_def sushi25_def ramen25_def)
  have d: "(28 + 1 / 2 ^ 48) + 72 \<noteq> (100 :: rat)"
    by simp
  from a have a': "o_percentage sushi25 = Fin (28 + 1 / 2 ^ 48)"
    by (simp add: sushi25_def)
  show ?thesis
    using ex_view25 m t a a' t32 e c d ex_view0 m0 t0 b fdiv_0_0 by blast
qed

section \<open>Claims about ending a poll\<close>

lemma getProp_truthy_not_nullish: "truthy (getProp b k) \<Longrightarrow> \<not> nullish b"
  by (cases b) auto

lemma getProp_endBody: "getProp (endBody requester) ''createdBy'' = JStr requester"
  by (simp add: endBody_def)

lemma endRoute_proceeds:
  assumes "polls s pollId = Some p" and "\<not> nullish b" and "\<not> truthy (getProp b ''createdBy'')"
  shows "endRoute s pollId (Some b) =
           (Inr (getPollWithResults (s\<lparr>polls := (polls s)(pollId \<mapsto> p\<lparr>p_status := ended\<rparr>)\<rparr>) pollId),
            s\<lparr>polls := (polls s)(pollId \<mapsto> p\<lparr>p_status := ended\<rparr>)\<rparr>)"
  using assms by (simp add: endRoute_def getPoll_def updatePoll_def Let_def)

lemma store3_is_store2_ended:
  "store2\<lparr>polls := (polls store2)(''p1'' \<mapsto> lunchPoll\<lparr>p_status := ended\<rparr>)\<rparr> = store3"
  by (simp add: store2_def store3_def)

lemma ex_view_ended:
  "getPollWithResults store3 ''p1'' = Some (lunchView\<lparr>p_status := ended\<rparr>)"
  by (simp add: getPollWithResults_def store3_def aggregateResults_def aggregateOption_def
      getVotes_def lunchPoll_def lunchView_def vote1_def Let_def pct_1_of_1 pct_0_of_1)

text \<open>
  Claim C3, as amended. For an existing poll, an end request whose \<^verbatim>\<open>createdBy\<close> is a
  non-empty string different from the creator of the poll fails with \<open>UNAUTHORIZED\<close>
  and leaves the store, and so every field of the poll, as it was.
\<close>

theorem end_by_other_requester_unauthorized:
  assumes "polls s pollId = Some p"
    and "getProp b ''createdBy'' = JStr requester"
    and "requester \<noteq> []" and "requester \<noteq> p_createdBy p"
  shows "endRoute s pollId (Some b) = (Inl UNAUTHORIZED, s)"
proof -
  have "truthy (getProp b ''createdBy'')"
    using assms(2,3) by simp
  moreover from this have "\<not> nullish b"
    by (rule getProp_truthy_not_nullish)
  ultimately show ?thesis
    using assms by (auto simp: endRoute_def getPoll_def)
qed

theorem end_by_other_requester_unauthorized_witness:
  "polls store2 ''p1'' = Some lunchPoll \<and>
   getProp (endBody ''mallory'') ''createdBy'' = JStr ''mallory'' \<and>
   ''mallory'' \<noteq> [] \<and> ''mallory'' \<noteq> p_createdBy lunchPoll \<and>
   endRoute store2 ''p1'' (Some (endBody ''mallory'')) = (Inl UNAUTHORIZED, store2)"
proof -
  have h: "''mallory'' \<noteq> []" "''mallory'' \<noteq> p_createdBy lunchPoll"
    by (simp_all add: lunchPoll_def)
  from end_by_other_requester_unauthorized[OF polls_store2 getProp_endBody h]
  show ?thesis
    using polls_store2 getProp_endBody h by blast
qed

text \<open>
  The claim as it was stated fails for the empty requester identifier, and for a body
  that carries none: both differ from the creator \<open>''anonymous''\<close>, and the poll is
  ended all the same.
\<close>

theorem end_by_empty_requester_counterexample:
  "polls store2 ''p1'' = Some lunchPoll \<and> p_status lunchPoll = active \<and>
   [] \<noteq> p_createdBy lunchPoll \<and>
   endRoute store2 ''p1'' (Some (endBody [])) = (Inr (Some (lunchView\<lparr>p_status := ended\<rparr>)), store3) \<and>
   endRoute store2 ''p1'' (Some (JObj [])) = (Inr (Some (lunchView\<lparr>p_status := ended\<rparr>)), store3) \<and>
   polls store3 ''p1'' = Some (lunchPoll\<lparr>p_status := ended\<rparr>)"
proof -
  have a: "endRoute store2 ''p1'' (Some (endBody [])) = (Inr (getPollWithResults store3 ''p1''), store3)"
    using endRoute_proceeds[OF polls_store2, of "endBody []"]
    by (simp add: getProp_endBody store3_is_store2_ended) (simp add: endBody_def)
  have b: "endRoute store2 ''p1'' (Some (JObj [])) = (Inr (getPollWithResults store3 ''p1''), store3)"
    using endRoute_proceeds[OF polls_store2, of "JObj []"]
    by (simp add: store3_is_store2_ended)
  show ?thesis
    using a b polls_store2 polls_store3 by (simp add: ex_view_ended) (simp add: lunchPoll_def)
qed

text \<open>
  Claim C10. For an existing poll, an end request whose body has no \<^verbatim>\<open>createdBy\<close>, or
  a falsy one (\<^verbatim>\<open>null\<close>, \<^verbatim>\<open>false\<close>, \<^verbatim>\<open>0\<close>, the empty string), succeeds: the
  comparison with the creator is skipped, the stored poll gets the status \<open>ended\<close>
  and the response carries the aggregated view of the ended poll. The body is any JSON
  value other than \<^verbatim>\<open>null\<close>, on which reading the property throws.
\<close>

theorem end_without_createdBy_succeeds:
  assumes "polls s pollId = Some p" and "\<not> nullish b" and "\<not> truthy (getProp b ''createdBy'')"
  shows "\<exists>view s'. endRoute s pollId (Some b) = (Inr (Some view), s') \<and>
           s' = s\<lparr>polls := (polls s)(pollId \<mapsto> p\<lparr>p_status := ended\<rparr>)\<rparr> \<and>
           getPollWithResults s' pollId = Some view \<and> p_status view = ended"
proof -
  let ?s' = "s\<lparr>polls := (polls s)(pollId \<mapsto> p\<lparr>p_status := ended\<rparr>)\<rparr>"
  have "\<exists>view. getPollWithResults ?s' pollId = Some view \<and> p_status view = ended"
    by (simp add: getPollWithResults_def)
  then show ?thesis
    using endRoute_proceeds[OF assms] by auto
qed

theorem end_without_createdBy_succeeds_witness:
  "polls store2 ''p1'' = Some lunchPoll \<and> \<not> nullish (JObj []) \<and>
   \<not> truthy (getProp (JObj []) ''createdBy'') \<and>
   (\<exists>view. endRoute store2 ''p1'' (Some (JObj [])) = (Inr (Some view), store3) \<and>
           p_status view = ended)"
proof -
  have h: "\<not> nullish (JObj [])" "\<not> truthy (getProp (JObj []) ''createdBy'')"
    by simp_all
  from end_without_createdBy_succeeds[OF polls_store2 h]
  have "\<exists>view. endRoute store2 ''p1'' (Some (JObj [])) = (Inr (Some view), store3) \<and>
           p_status view = ended"
    by (auto simp: store3_is_store2_ended)
  then show ?thesis
    using polls_store2 h by blast
qed

section \<open>Claims about creating a poll\<close>

lemma trim_Nil: "trim [] = []"
  by (simp add: trim_def)

lemma validateOptionItems_strings:
  "(validateOptionItems i (map JStr os) = []) = (\<forall>t \<in> set os. trim t \<noteq> [] \<and> length t \<le> 100)"
  by (induction os arbitrary: i) auto

lemma validateTitle_string: "(validateTitle (JStr t) = []) = (trim t \<noteq> [] \<and> length t \<le> 200)"
  by (auto simp: validateTitle_def trim_Nil)

lemma validateOptions_strings:
  "(validateOptions (JArr (map JStr os)) = []) =
     (2 \<le> length os \<and> length os \<le> 10 \<and> (\<forall>t \<in> set os. trim t \<noteq> [] \<and> length t \<le> 100))"
  by (auto simp: validateOptions_def validateOptionItems_strings)

lemma getProp_createBody:
  "getProp (createBody t os) ''title'' = JStr t"
  "getProp (createBody t os) ''options'' = JArr (map JStr os)"
  by (simp_all add: createBody_def)

lemma isValid_createBody:
  "isValid (validatePollCreation (createBody t os)) = (\<not> rejectedInput t os)"
proof -
  have "truthy (createBody t os)" by (simp add: createBody_def)
  then show ?thesis
    by (auto simp: validatePollCreation_def Let_def getProp_createBody
        validateTitle_string validateOptions_strings rejectedInput_def)
qed

lemma asStrings_strings: "asStrings (map JStr os) = Some os"
  by (induction os) auto

lemma asCreatePollRequest_createBody:
  "asCreatePollRequest (createBody t os) = Some \<lparr>r_title = t, r_options = os\<rparr>"
  by (simp add: asCreatePollRequest_def getProp_createBody asStrings_strings)

lemma validateOptionItems_typed:
  "validateOptionItems i os = [] \<Longrightarrow> \<exists>ts. asStrings os = Some ts"
proof (induction os arbitrary: i)
  case Nil
  then show ?case by simp
next
  case (Cons v os)
  from Cons.prems obtain t where v: "v = JStr t"
    by (cases v) auto
  from Cons.prems have "validateOptionItems (i + 1) os = []"
    by simp
  from Cons.IH[OF this] v show ?case
    by auto
qed

lemma validateTitle_typed: "validateTitle v = [] \<Longrightarrow> \<exists>t. v = JStr t"
  by (cases v) (auto simp: validateTitle_def split: if_splits)

lemma validateOptions_typed:
  "validateOptions v = [] \<Longrightarrow> \<exists>os ts. v = JArr os \<and> asStrings os = Some ts"
  by (cases v) (auto simp: validateOptions_def validateOptionItems_typed split: if_splits)

lemma validatePollCreation_typed:
  assumes "isValid (validatePollCreation b)"
  shows "\<exists>request. asCreatePollRequest b = Some request"
proof -
  from assms have "validateTitle (getProp b ''title'') = []"
    and "validateOptions (getProp b ''options'') = []"
    by (auto simp: validatePollCreation_def Let_def split: if_splits)
  then obtain t os ts where "getProp b ''title'' = JStr t" "getProp b ''options'' = JArr os"
    "asStrings os = Some ts"
    using validateTitle_typed validateOptions_typed by blast
  then show ?thesis
    by (simp add: asCreatePollRequest_def)
qed

lemma makeOptions_zero:
  "\<forall>opt \<in> set (makeOptions gen i ts). o_votes opt = 0 \<and> o_percentage opt = Fin 0"
  by (induction ts arbitrary: i) auto

lemma length_makeOptions: "length (makeOptions gen i ts) = length ts"
  by (induction ts arbitrary: i) auto

lemma createPollRoute_accepts:
  assumes "\<not> rejectedInput t os"
  shows "\<exists>view s'. createPollRoute s (Some (createBody t os)) pollId gen now = (Inr view, s') \<and>
           polls s' pollId = Some view \<and> getVotes s' pollId = [] \<and>
           p_status view = active \<and> p_totalVotes view = 0 \<and>
           length (p_options view) = length os \<and>
           (\<forall>opt \<in> set (p_options view). o_votes opt = 0 \<and> o_percentage opt = Fin 0)"
  using assms
  by (simp add: createPollRoute_def Let_def isValid_createBody asCreatePollRequest_createBody
      sanitizePollData_def createPoll_def getVotes_def makeOptions_zero length_makeOptions)

lemma createPollRoute_rejects:
  assumes "\<not> isValid (validatePollCreation b)"
  shows "createPollRoute s (Some b) pollId gen now =
           (Inl (VALIDATION_ERROR (errors (validatePollCreation b))), s)"
  using assms
  by (simp add: createPollRoute_def Let_def createValidationError_def)

text \<open>
  Claim C9, as amended. A creation request with a string title and an array of string
  options fails with \<open>VALIDATION_ERROR\<close>, the store unchanged, exactly when the title
  is blank or longer than 200 characters, the number of options is outside 2 to 10, or
  an option is blank or longer than 100 characters; an empty title and a number of
  options outside 2 to 10 are among these. Otherwise the handler returns and stores a
  new poll with status \<open>active\<close>, \<open>totalVotes\<close> 0, one option per option text with
  vote count 0, and an empty vote log.
\<close>

theorem createPoll_rejects_exactly_invalid_input:
  "((\<exists>errs. createPollRoute s (Some (createBody t os)) pollId gen now
             = (Inl (VALIDATION_ERROR errs), s)) = rejectedInput t os) \<and>
   (t = [] \<or> length os < 2 \<or> length os > 10 \<longrightarrow> rejectedInput t os) \<and>
   (\<not> rejectedInput t os \<longrightarrow>
      (\<exists>view s'. createPollRoute s (Some (createBody t os)) pollId gen now = (Inr view, s') \<and>
           polls s' pollId = Some view \<and> getVotes s' pollId = [] \<and>
           p_status view = active \<and> p_totalVotes view = 0 \<and>
           length (p_options view) = length os \<and>
           (\<forall>opt \<in> set (p_options view). o_votes opt = 0 \<and> o_percentage opt = Fin 0)))"
proof (intro conjI impI)
  show "(\<exists>errs. createPollRoute s (Some (createBody t os)) pollId gen now
             = (Inl (VALIDATION_ERROR errs), s)) = rejectedInput t os"
  proof (cases "rejectedInput t os")
    case True
    then have "\<not> isValid (validatePollCreation (createBody t os))"
      by (simp add: isValid_createBody)
    from createPollRoute_rejects[OF this] True show ?thesis
      by blast
  next
    case False
    from createPollRoute_accepts[OF this] False show ?thesis
      by (metis Inl_Inr_False fst_conv)
  qed
next
  assume "t = [] \<or> length os < 2 \<or> length os > 10"
  then show "rejectedInput t os"
    by (auto simp: rejectedInput_def trim_Nil)
next
  assume "\<not> rejectedInput t os"
  then show "\<exists>view s'. createPollRoute s (Some (createBody t os)) pollId gen now = (Inr view, s') \<and>
           polls s' pollId = Some view \<and> getVotes s' pollId = [] \<and>
           p_status view = active \<and> p_totalVotes view = 0 \<and>
           length (p_options view) = length os \<and>
           (\<forall>opt \<in> set (p_options view). o_votes opt = 0 \<and> o_percentage opt = Fin 0)"
    by (rule createPollRoute_accepts)
qed

lemma not_rejected_lunch: "\<not> rejectedInput ''Lunch?'' [''Sushi'', ''Ramen'']"
  by (simp add: rejectedInput_def trim_example)

theorem createPoll_rejects_exactly_invalid_input_witness:
  "\<not> rejectedInput ''Lunch?'' [''Sushi'', ''Ramen''] \<and>
   rejectedInput [] [''Sushi'', ''Ramen''] \<and>
   (\<exists>view s'. createPollRoute emptyStore (Some (createBody ''Lunch?'' [''Sushi'', ''Ramen''])) ''p1'' exGen 1000
        = (Inr view, s') \<and>
      polls s' ''p1'' = Some view \<and> p_status view = active \<and> p_totalVotes view = 0 \<and>
      length (p_options view) = 2 \<and> list_all (\<lambda>opt. o_votes opt = 0) (p_options view)) \<and>
   (\<exists>errs. createPollRoute emptyStore (Some (createBody [] [''Sushi'', ''Ramen''])) ''p1'' exGen 1000
        = (Inl (VALIDATION_ERROR errs), emptyStore))"
proof -
  note t1 = createPoll_rejects_exactly_invalid_input[of emptyStore "''Lunch?''" "[''Sushi'', ''Ramen'']" "''p1''" exGen 1000]
  note t2 = createPoll_rejects_exactly_invalid_input[of emptyStore "[]" "[''Sushi'', ''Ramen'']" "''p1''" exGen 1000]
  have r: "rejectedInput [] [''Sushi'', ''Ramen'']"
    using t2 by blast
  have "\<exists>view s'. createPollRoute emptyStore (Some (createBody ''Lunch?'' [''Sushi'', ''Ramen''])) ''p1'' exGen 1000
        = (Inr view, s') \<and>
      polls s' ''p1'' = Some view \<and> p_status view = active \<and> p_totalVotes view = 0 \<and>
      length (p_options view) = 2 \<and> list_all (\<lambda>opt. o_votes opt = 0) (p_options view)"
    using t1 not_rejected_lunch by (auto simp: list_all_iff)
  moreover have "\<exists>errs. createPollRoute emptyStore (Some (createBody [] [''Sushi'', ''Ramen''])) ''p1'' exGen 1000
        = (Inl (VALIDATION_ERROR errs), emptyStore)"
    using t2 r by blast
  ultimately show ?thesis
    using not_rejected_lunch r by blast
qed

text \<open>
  The claim as it was stated fails in the "exactly when" direction: the title
  \<open>''Lunch?''\<close> is not empty and there are two options, yet the request is rejected
  because the second option is empty; and a title of two spaces is not empty, yet it
  is rejected as a missing title.
\<close>

theorem createPoll_rejects_blank_option_counterexample:
  "''Lunch?'' \<noteq> [] \<and> 2 \<le> length [''Sushi'', []] \<and> length [''Sushi'', []] \<le> 10 \<and>
   createPollRoute emptyStore (Some (createBody ''Lunch?'' [''Sushi'', []])) ''p1'' exGen 1000
     = (Inl (VALIDATION_ERROR [OptionEmpty 2]), emptyStore) \<and>
   ''  '' \<noteq> [] \<and>
   createPollRoute emptyStore (Some (createBody ''  '' [''Sushi'', ''Ramen''])) ''p1'' exGen 1000
     = (Inl (VALIDATION_ERROR [TitleRequired]), emptyStore)"
proof -
  have "validatePollCreation (createBody ''Lunch?'' [''Sushi'', []])
          = \<lparr>isValid = False, errors = [OptionEmpty 2]\<rparr>"
    by (simp add: validatePollCreation_def createBody_def validateTitle_def validateOptions_def
        trim_example trim_Nil)
  moreover have "trim ''  '' = []"
    by (simp add: trim_def isWhitespace_def)
  then have "validatePollCreation (createBody ''  '' [''Sushi'', ''Ramen''])
          = \<lparr>isValid = False, errors = [TitleRequired]\<rparr>"
    by (simp add: validatePollCreation_def createBody_def validateTitle_def validateOptions_def
        trim_example)
  ultimately show ?thesis
    by (simp add: createPollRoute_def Let_def createValidationError_def)
qed

section \<open>Claims about the connection registry\<close>

lemma broadcastLoop_eq:
  "broadcastLoop sendOk msg cs (cur, sent) =
     (filter (\<lambda>c. c \<notin> {x \<in> set cs. \<not> sendOk x}) cur,
      sent @ map (\<lambda>c. (c_ws c, msg)) (filter sendOk cs))"
proof (induction cs arbitrary: cur sent)
  case Nil
  then show ?case by simp
next
  case (Cons c cs)
  show ?case
  proof (cases "sendOk c")
    case True
    then show ?thesis
      by (simp add: Cons.IH) (rule filter_cong, auto)
  next
    case False
    then show ?thesis
      by (simp add: Cons.IH setDelete_def removeAll_filter_not_eq) (rule filter_cong, auto)
  qed
qed

lemma broadcastLoop_start:
  "broadcastLoop sendOk msg cs (cs, []) =
     (filter sendOk cs, map (\<lambda>c. (c_ws c, msg)) (filter sendOk cs))"
  by (simp add: broadcastLoop_eq) (rule filter_cong, auto)

lemma broadcastToPoll_eq:
  assumes "connections m pollId = Some pc"
  shows "broadcastToPoll sendOk pollId message m =
           (map (\<lambda>c. (c_ws c, message)) (filter sendOk pc),
            m\<lparr>connections := (connections m)(pollId \<mapsto> filter sendOk pc)\<rparr>)"
  using assms by (simp add: broadcastToPoll_def broadcastLoop_start)

lemma broadcast_conns:
  "connections (snd (broadcastToPoll sendOk pollId message m)) q = Some pc' \<Longrightarrow>
     \<exists>pc. connections m q = Some pc \<and> set pc' \<subseteq> set pc \<and>
       nextRef (snd (broadcastToPoll sendOk pollId message m)) = nextRef m"
  by (cases "connections m pollId")
     (auto simp: broadcastToPoll_def broadcastLoop_start split: if_splits)

lemma wf_empty: "wfManager emptyManager"
  by (simp add: wfManager_def emptyManager_def)

lemma wf_add: "wfManager m \<Longrightarrow> wfManager (addConnection pollId ws clientId m)"
  unfolding wfManager_def
  by (fastforce simp: addConnection_def Let_def setAdd_def less_Suc_eq split: if_splits option.splits)

lemma wf_remove: "wfManager m \<Longrightarrow> wfManager (removeConnection pollId ws m)"
  unfolding wfManager_def
  by (fastforce simp: removeConnection_def Let_def setDelete_def split: if_splits option.splits)

lemma wf_broadcast: "wfManager m \<Longrightarrow> wfManager (snd (broadcastToPoll sendOk pollId message m))"
  unfolding wfManager_def
  by (metis broadcast_conns subsetD)

lemma mreachable_wf: "mreachable m \<Longrightarrow> wfManager m"
  by (induction rule: mreachable.induct) (auto intro: wf_empty wf_add wf_remove wf_broadcast)

lemma manager1_eq: "manager1 = \<lparr>connections = [''p1'' \<mapsto> [conn 0 7]], nextRef = 1\<rparr>"
  by (simp add: manager1_def addConnection_def emptyManager_def setAdd_def conn_def Let_def)

lemma manager3_eq:
  "manager3 = \<lparr>connections = [''p1'' \<mapsto> [conn 0 1, conn 1 2, conn 2 3]], nextRef = 3\<rparr>"
  by (simp add: manager3_def addConnection_def emptyManager_def setAdd_def conn_def Let_def
      numeral_2_eq_2 numeral_3_eq_3)

lemma mreachable_manager1: "mreachable manager1"
  unfolding manager1_def by (intro m_add m_init)

text \<open>
  Claim C8. \<open>broadcastToPoll\<close> sends the message once to every connection of the poll
  whose send returns, in the order of the set and whatever happens at the other
  connections, and the set it leaves holds exactly those connections: every
  connection whose send threw is removed.
\<close>

theorem broadcast_best_effort:
  assumes "connections m pollId = Some pc"
  shows "fst (broadcastToPoll sendOk pollId message m)
           = map (\<lambda>c. (c_ws c, message)) (filter sendOk pc) \<and>
         connections (snd (broadcastToPoll sendOk pollId message m)) pollId
           = Some (filter sendOk pc) \<and>
         (\<forall>c \<in> set pc. sendOk c \<longrightarrow>
              (c_ws c, message) \<in> set (fst (broadcastToPoll sendOk pollId message m))) \<and>
         (\<forall>c \<in> set pc. \<not> sendOk c \<longrightarrow>
              (\<forall>pc'. connections (snd (broadcastToPoll sendOk pollId message m)) pollId = Some pc'
                     \<longrightarrow> c \<notin> set pc'))"
  using assms by (auto simp: broadcastToPoll_eq)

text \<open>Three sockets on the poll; the send to the second one throws.\<close>

theorem broadcast_best_effort_witness:
  "connections manager3 ''p1'' = Some [conn 0 1, conn 1 2, conn 2 3] \<and>
   fst (broadcastToPoll (\<lambda>c. c_ws c \<noteq> 2) ''p1'' msg_poll_updated manager3)
     = [(1, msg_poll_updated), (3, msg_poll_updated)] \<and>
   connections (snd (broadcastToPoll (\<lambda>c. c_ws c \<noteq> 2) ''p1'' msg_poll_updated manager3)) ''p1''
     = Some [conn 0 1, conn 2 3]"
proof -
  have c: "connections manager3 ''p1'' = Some [conn 0 1, conn 1 2, conn 2 3]"
    by (simp add: manager3_eq)
  from broadcast_best_effort[OF c, of "\<lambda>c. c_ws c \<noteq> 2" msg_poll_updated] c
  show ?thesis
    by (simp add: conn_def)
qed

text \<open>
  Claim C4, as amended. \<open>addConnection\<close> is not idempotent and keeps earlier
  registrations: in every registry the methods can build, each call registers one more
  connection under the poll id, also for a socket that is registered there already, and
  leaves the sets of all other poll ids as they are, so a socket can be registered to
  several polls at once.
\<close>

theorem addConnection_registers_one_more:
  assumes "mreachable m"
  shows "getConnectionCount (addConnection pollId ws clientId m) pollId
           = getConnectionCount m pollId + 1 \<and>
         (\<forall>q. q \<noteq> pollId \<longrightarrow>
              connections (addConnection pollId ws clientId m) q = connections m q)"
proof -
  have wf: "wfManager m" using assms by (rule mreachable_wf)
  have fresh: "\<lparr>c_ref = nextRef m, c_ws = ws, c_pollId = pollId, c_clientId = clientId\<rparr> \<notin> set pc"
    if "connections m pollId = Some pc" for pc
    using wf that unfolding wfManager_def by fastforce
  show ?thesis
    using fresh
    by (auto simp: addConnection_def getConnectionCount_def Let_def setAdd_def split: option.splits)
qed

theorem addConnection_registers_one_more_witness:
  "mreachable manager1 \<and> ''p2'' \<noteq> ''p1'' \<and>
   getConnectionCount (addConnection ''p1'' 7 ''client'' manager1) ''p1''
     = getConnectionCount manager1 ''p1'' + 1 \<and>
   connections (addConnection ''p1'' 7 ''client'' manager1) ''p2'' = connections manager1 ''p2''"
  using addConnection_registers_one_more[OF mreachable_manager1, of "''p1''" 7 "''client''"]
    mreachable_manager1
  by simp

text \<open>
  The claim as it was stated fails on both counts: registering socket 7 for poll
  \<open>p1\<close> a second time makes the count 2, and registering it for poll \<open>p2\<close> leaves its
  registration for \<open>p1\<close> in place.
\<close>

theorem addConnection_not_idempotent_counterexample:
  "getConnectionCount manager1 ''p1'' = 1 \<and>
   getConnectionCount (addConnection ''p1'' 7 ''client'' manager1) ''p1'' = 2 \<and>
   addConnection ''p1'' 7 ''client'' manager1 \<noteq> manager1 \<and>
   getConnectionCount (addConnection ''p2'' 7 ''client'' manager1) ''p1'' = 1 \<and>
   getConnectionCount (addConnection ''p2'' 7 ''client'' manager1) ''p2'' = 1"
  by (simp add: manager1_eq addConnection_def getConnectionCount_def setAdd_def conn_def Let_def)

section \<open>Notifications after a vote or an end\<close>

text \<open>
  Claim C2 does not hold of the handlers: socket 7 is registered for the poll, the
  vote of \<open>v1\<close> and the end of the poll both succeed, and nothing is sent.
\<close>

theorem vote_and_end_send_nothing:
  "getConnectionCount (wsManager server1) ''p1'' = 1 \<and>
   handleVote server1 ''p1'' (Some (voteBody ''o'' ''v1'')) ''vote-1'' 2000
     = (Inr \<lparr>vr_votedOptionId = ''o'', vr_poll = Some lunchView\<rparr>, server2) \<and>
   wire server2 = [] \<and>
   fst (handleEnd server2 ''p1'' (Some (endBody ''anonymous'')))
     = Inr (Some (lunchView\<lparr>p_status := ended\<rparr>)) \<and>
   wire (snd (handleEnd server2 ''p1'' (Some (endBody ''anonymous'')))) = []"
  by (simp add: handleVote_def handleEnd_def server1_def server2_def ex_vote ex_end ex_view_ended
      manager1_eq getConnectionCount_def)

end
